theory Spec2Isabelle
  imports Main "HOL-Library.Word" "HOL-Library.Multiset"
begin

text \<open>
  A model of GoScanPorts (\<open>main.go\<close>): a TCP port scanner that starts one goroutine per
  port, lets each probe dial its port with a time-out and retries, collects the open
  ports through a buffered channel after a wait on all probes, and returns them sorted.
  The definitions follow the source function by function; what the source leaves to
  the Go run-time system and to the network (dial outcomes, scheduling, the clock) is a
  parameter of the model. The properties proved of it are in the last section.
\<close>

section \<open>Data model\<close>

text \<open>
  Go's \<open>int\<close> and \<open>time.Duration\<close> are taken as 64-bit two's complement integers
  (the width of \<open>int\<close> on 64-bit platforms; \<open>time.Duration\<close> is \<open>int64\<close> everywhere):
  \<open>+\<close> and \<open>-\<close> wrap around, and the comparisons of the source are comparisons of
  the signed values \<open>sint\<close>.
\<close>

type_synonym go_int = "64 word"

text \<open>\<open>type PortScanner struct { host string; timeout time.Duration; retryCount int }\<close>\<close>

record PortScanner =
  host :: string
  timeout :: go_int
  retryCount :: go_int

definition NewPortScanner :: "string \<Rightarrow> go_int \<Rightarrow> go_int \<Rightarrow> PortScanner" where
  "NewPortScanner h t r = \<lparr>host = h, timeout = t, retryCount = r\<rparr>"

subsection \<open>The network and the scheduler\<close>

text \<open>
  What \<open>net.DialTimeout\<close> answers is decided by the environment. A dial returns the pair
  \<open>(conn, err)\<close> of the source; the error kinds are the dial-time failures, and a
  connection carries what the one-byte \<open>conn.Read\<close> on it will yield.
\<close>

datatype dial_error = TimedOut | Refused | Unreachable | NoSuchHost

datatype read_outcome = ReadByte "8 word" | ReadDeadline | ReadEOF | ReadFailed

record conn =
  read_reply :: read_outcome

type_synonym dial_result = "conn option \<times> dial_error option"

text \<open>
  The run-time environment of one scan:
  \<^item> \<open>DialTimeout address timeout k\<close> is the answer to the dial of \<open>address\<close> that a probe
    makes after \<open>k\<close> earlier dials of its own;
  \<^item> \<open>completion\<close> is the scheduler: the goroutines (numbered in the order they were
    started) reach their channel send in this order; numbers that name no goroutine or
    repeat are skipped, and goroutines not named at all finish last, in start order;
  \<^item> \<open>elapsed\<close> is the text \<open>time.Since\<close> is printed as.
  Apart from the size check of \<open>make\<close>, memory, goroutines and sockets are unbounded.
\<close>

record runtime =
  DialTimeout :: "string \<Rightarrow> go_int \<Rightarrow> nat \<Rightarrow> dial_result"
  completion :: "nat list"
  elapsed :: string

subsection \<open>Formatting\<close>

text \<open>The verb \<open>%d\<close> of \<open>fmt\<close>: decimal digits, with a minus sign for a negative value.\<close>

fun digits :: "nat \<Rightarrow> string" where
  "digits n = (if n < 10 then [''0123456789'' ! n]
               else digits (n div 10) @ [''0123456789'' ! (n mod 10)])"

declare digits.simps [simp del]

definition fmt_d :: "int \<Rightarrow> string" where
  "fmt_d i = (if i < 0 then CHR ''-'' # digits (nat (- i)) else digits (nat i))"

section \<open>The probe\<close>

text \<open>
  What a probe does besides its verdict: the calls it makes on the network and the timer,
  in order. The result of \<open>conn.Read\<close> is discarded by the source (\<open>_, _ =\<close>) and is not
  part of the event.
\<close>

datatype event =
    Dial string go_int
  | SetDeadline go_int
  | SetReadDeadline
  | Read
  | Close
  | Sleep

text \<open>
  A probe that has returned: \<open>sent\<close> is the value it put on \<open>openPorts\<close> (at most one),
  \<open>trace\<close> its events.
\<close>

record probe =
  sent :: "go_int option"
  trace :: "event list"

text \<open>
  The loop \<open>for attempt := 0; attempt <= ps.retryCount; attempt++\<close> of \<open>ScanPort\<close>.
  \<open>k\<close> counts the dials made so far and \<open>tr\<close> collects the events. The counter
  \<open>attempt\<close> wraps around like any \<open>int\<close>, so the loop need not end: a probe that never
  returns is \<open>None\<close>.
\<close>

partial_function (option) attempts ::
  "runtime \<Rightarrow> PortScanner \<Rightarrow> string \<Rightarrow> go_int \<Rightarrow> go_int \<Rightarrow> nat \<Rightarrow> event list \<Rightarrow> probe option"
where
  "attempts rt ps address port attempt k tr =
     (if sint attempt \<le> sint (retryCount ps) then
        (let r = DialTimeout rt address (timeout ps) k;
             conn = fst r; err = snd r;
             tr1 = tr @ [Dial address (timeout ps)];
             tr2 = (if sint attempt < sint (retryCount ps) then tr1 @ [Sleep] else tr1)
         in if err = None then
              if conn \<noteq> None then
                Some \<lparr>sent = Some port,
                      trace = tr1 @ [SetDeadline (timeout ps), SetReadDeadline, Read, Close]\<rparr>
              else attempts rt ps address port (attempt + 1) (Suc k) tr2
            else attempts rt ps address port (attempt + 1) (Suc k) tr2)
      else Some \<lparr>sent = None, trace = tr\<rparr>)"

definition ScanPort :: "runtime \<Rightarrow> PortScanner \<Rightarrow> go_int \<Rightarrow> probe option" where
  "ScanPort rt ps port =
     (let address = host ps @ '':'' @ fmt_d (sint port)
      in attempts rt ps address port 0 0 [])"

declare attempts.simps [code]

section \<open>The scanner\<close>

subsection \<open>Channels, the wait group, sorting\<close>

text \<open>
  A run ends in one of three ways besides returning: a panic, the run-time system's
  "all goroutines are asleep" (\<open>Deadlock\<close>), or never (\<open>None\<close> of the option type that
  wraps every result below).
\<close>

datatype fault = Panic string | Deadlock

text \<open>A buffered channel of \<open>int\<close>: its capacity, the values queued, and whether it is closed.\<close>

record chan =
  capacity :: nat
  queue :: "go_int list"
  closed :: bool

text \<open>
  \<open>make(chan int, n)\<close>, as \<open>makechan\<close> of the Go run-time system decides it: the call
  panics when \<open>n\<close> is negative or when the buffer of \<open>n\<close> elements of 8 bytes exceeds
  \<open>maxAlloc - hchanSize\<close>. On a 64-bit platform \<open>maxAlloc\<close> is \<open>2^48\<close> bytes and the
  channel header \<open>hchanSize\<close> takes 96 bytes (104 from Go 1.23 on, which moves the bound
  by one element), so the largest capacity that does not panic is \<open>2^45 - 12\<close>.
\<close>

definition maxAlloc :: int where
  "maxAlloc = 2 ^ 48"

definition hchanSize :: int where
  "hchanSize = 96"

definition make_chan :: "go_int \<Rightarrow> fault + chan" where
  "make_chan n =
     (if maxAlloc - hchanSize < 8 * sint n \<or> sint n < 0
      then Inl (Panic ''makechan: size out of range'')
      else Inr \<lparr>capacity = nat (sint n), queue = [], closed = False\<rparr>)"

text \<open>
  \<open>ch <- v\<close> while nobody receives: the value is queued when there is room, and the
  sender blocks otherwise (\<open>None\<close>). No goroutine of a scan receives before
  \<open>wg.Wait\<close> has returned, so a blocked sender stays blocked.
\<close>

definition send :: "chan \<Rightarrow> go_int \<Rightarrow> chan option" where
  "send ch v =
     (if length (queue ch) < capacity ch then Some (ch\<lparr>queue := queue ch @ [v]\<rparr>) else None)"

fun deliver :: "chan \<Rightarrow> go_int option list \<Rightarrow> chan option" where
  "deliver ch [] = Some ch"
| "deliver ch (None # vs) = deliver ch vs"
| "deliver ch (Some v # vs) =
     (case send ch v of None \<Rightarrow> None | Some ch' \<Rightarrow> deliver ch' vs)"

text \<open>
  The order in which \<open>n\<close> goroutines reach the end of \<open>ScanPort\<close> under a scheduler:
  always a permutation of \<open>0, ..., n - 1\<close>.
\<close>

definition finish_order :: "nat \<Rightarrow> nat list \<Rightarrow> nat list" where
  "finish_order n sched =
     (let named = remdups (filter (\<lambda>i. i < n) sched)
      in named @ filter (\<lambda>i. i \<notin> set named) [0..<n])"

text \<open>
  \<open>wg.Wait()\<close> after one \<open>wg.Add(1); go ps.ScanPort(port, &wg, openPorts)\<close> for each port
  of \<open>started\<close>: it returns when every probe has returned (\<open>defer wg.Done()\<close>), and then
  the channel holds what the probes sent, in the order they finished. It never returns
  when a probe never returns, and the run dies when a probe blocks on its send.
\<close>

definition Wait ::
  "runtime \<Rightarrow> PortScanner \<Rightarrow> go_int list \<Rightarrow> chan \<Rightarrow> (fault + chan \<times> probe list) option"
where
  "Wait rt ps started openPorts =
     (case those (map (ScanPort rt ps) started) of
        None \<Rightarrow> None
      | Some probes \<Rightarrow>
          (case deliver openPorts
                  (map (\<lambda>i. sent (probes ! i)) (finish_order (length probes) (completion rt))) of
             None \<Rightarrow> Some (Inl Deadlock)
           | Some ch \<Rightarrow> Some (Inr (ch, probes))))"

definition close :: "chan \<Rightarrow> chan" where
  "close ch = ch\<lparr>closed := True\<rparr>"

text \<open>
  \<open>for port := range openPorts { results = append(results, port) }\<close>: the queued values
  in order; the loop ends because the channel is closed.
\<close>

definition drain :: "chan \<Rightarrow> fault + go_int list" where
  "drain ch = (if closed ch then Inr (queue ch) else Inl Deadlock)"

text \<open>\<open>sort.Ints\<close>: increasing order of the signed values.\<close>

definition sort_Ints :: "go_int list \<Rightarrow> go_int list" where
  "sort_Ints xs = sort_key sint xs"

subsection \<open>Scan\<close>

text \<open>
  What a scan did: \<open>results\<close> is the slice the source returns; the other fields record
  the capacity the channel was made with, the ports a goroutine was started for (in
  start order) and what each of these probes did.
\<close>

record scan =
  results :: "go_int list"
  chan_cap :: nat
  started :: "go_int list"
  probes :: "probe list"

text \<open>
  \<open>for port := startPort; port <= endPort; port++ { wg.Add(1); go ps.ScanPort(...) }\<close>:
  the ports goroutines are started for. \<open>port++\<close> wraps around, so the loop does not end
  when \<open>endPort\<close> is the largest \<open>int\<close>.
\<close>

partial_function (option) spawn :: "go_int \<Rightarrow> go_int \<Rightarrow> go_int list \<Rightarrow> go_int list option"
where
  "spawn port endPort ports =
     (if sint port \<le> sint endPort then spawn (port + 1) endPort (ports @ [port])
      else Some ports)"

declare spawn.simps [code]

definition Scan :: "runtime \<Rightarrow> PortScanner \<Rightarrow> go_int \<Rightarrow> go_int \<Rightarrow> (fault + scan) option" where
  "Scan rt ps startPort endPort =
     (case make_chan (endPort - startPort + 1) of
        Inl e \<Rightarrow> Some (Inl e)
      | Inr openPorts \<Rightarrow>
          (case spawn startPort endPort [] of
             None \<Rightarrow> None
           | Some ports \<Rightarrow>
               (case Wait rt ps ports openPorts of
                  None \<Rightarrow> None
                | Some (Inl e) \<Rightarrow> Some (Inl e)
                | Some (Inr (ch, prs)) \<Rightarrow>
                    (case drain (close ch) of
                       Inl e \<Rightarrow> Some (Inl e)
                     | Inr rs \<Rightarrow>
                         Some (Inr \<lparr>results = sort_Ints rs, chan_cap = capacity openPorts,
                                    started = ports, probes = prs\<rparr>)))))"

subsection \<open>ScanPopularPorts\<close>

definition getPopularPorts :: "go_int list" where
  "getPopularPorts =
     [80, 443, 8080, 8443, 8000, 3000, 4200, 5000,
      3306, 5432, 27017, 6379, 1433, 5984, 9200,
      21, 22, 23, 3389, 5900,
      25, 110, 143, 465, 587, 993, 995,
      53, 67, 445, 5672, 9090, 11211]"

text \<open>\<open>for _, port := range ports { wg.Add(1); go ps.ScanPort(...) }\<close>\<close>

fun spawn_each :: "go_int list \<Rightarrow> go_int list \<Rightarrow> go_int list" where
  "spawn_each [] ports = ports"
| "spawn_each (port # rest) ports = spawn_each rest (ports @ [port])"

definition ScanPopularPorts :: "runtime \<Rightarrow> PortScanner \<Rightarrow> (fault + scan) option" where
  "ScanPopularPorts rt ps =
     (let ports = getPopularPorts in
      case make_chan (of_nat (length ports)) of
        Inl e \<Rightarrow> Some (Inl e)
      | Inr openPorts \<Rightarrow>
          (case Wait rt ps (spawn_each ports []) openPorts of
             None \<Rightarrow> None
           | Some (Inl e) \<Rightarrow> Some (Inl e)
           | Some (Inr (ch, prs)) \<Rightarrow>
               (case drain (close ch) of
                  Inl e \<Rightarrow> Some (Inl e)
                | Inr rs \<Rightarrow>
                    Some (Inr \<lparr>results = sort_Ints rs, chan_cap = capacity openPorts,
                               started = spawn_each ports [], probes = prs\<rparr>))))"

section \<open>The command line\<close>

definition getServiceName :: "go_int \<Rightarrow> string" where
  "getServiceName port =
     (let services = map_of
        [(20, ''(FTP Data)''), (21, ''(FTP Control)''), (22, ''(SSH)''), (23, ''(Telnet)''),
         (25, ''(SMTP)''), (53, ''(DNS)''), (80, ''(HTTP)''), (110, ''(POP3)''),
         (143, ''(IMAP)''), (443, ''(HTTPS)''), (445, ''(SMB)''), (465, ''(SMTPS)''),
         (587, ''(SMTP Submission)''), (993, ''(IMAPS)''), (995, ''(POP3S)''),
         (1433, ''(MS SQL Server)''), (3000, ''(Dev Server)''), (3306, ''(MySQL)''),
         (3389, ''(RDP)''), (4200, ''(Angular Dev)''), (5000, ''(Flask/Various)''),
         (5432, ''(PostgreSQL)''), (5672, ''(RabbitMQ)''), (5900, ''(VNC)''),
         (5984, ''(CouchDB)''), (6379, ''(Redis)''), (8000, ''(HTTP Dev)''),
         (8080, ''(HTTP Alt)''), (8443, ''(HTTPS Alt)''), (9090, ''(Prometheus)''),
         (9200, ''(Elasticsearch)''), (11211, ''(Memcached)''), (27017, ''(MongoDB)'')]
      in case services port of Some name \<Rightarrow> name | None \<Rightarrow> [])"

text \<open>The values of the flags after \<open>flag.Parse()\<close>.\<close>

record flags =
  flag_host :: string
  flag_start :: go_int
  flag_end :: go_int
  flag_timeout :: go_int
  flag_retries :: go_int
  flag_popular :: bool
  flag_thx :: bool

text \<open>What a run of \<open>main\<close> printed, line by line, and the scan it made, if any.\<close>

record run =
  stdout :: "string list"
  scanned :: "scan option"

text \<open>The lines \<open>main\<close> prints after a scan has returned \<open>openPorts\<close>.\<close>

definition summary :: "runtime \<Rightarrow> go_int list \<Rightarrow> string list" where
  "summary rt openPorts =
     [[], ''Scan completed in '' @ elapsed rt,
      ''Found '' @ fmt_d (int (length openPorts)) @ '' open port(s):''] @
     (if length openPorts > 0 then
        map (\<lambda>port. ''  Port '' @ fmt_d (sint port) @ '' is open '' @ getServiceName port)
          openPorts
      else [''  No open ports found in the specified range''])"

definition main :: "runtime \<Rightarrow> flags \<Rightarrow> (fault + run) option" where
  "main rt fl =
     (let host = flag_host fl; startPort = flag_start fl; endPort = flag_end fl in
      if flag_thx fl then
        Some (Inr \<lparr>stdout = [''You are welcome (https://github.com/ysfksr)''], scanned = None\<rparr>)
      else if sint startPort < 1 \<or> sint startPort > 65535 \<or>
              sint endPort < 1 \<or> sint endPort > 65535 then
        Some (Inr \<lparr>stdout = [''Error: Port range must be between 1 and 65535''],
                   scanned = None\<rparr>)
      else if sint startPort > sint endPort then
        Some (Inr \<lparr>stdout = [''Error: Start port must be less than or equal to end port''],
                   scanned = None\<rparr>)
      else
        (let scanner = NewPortScanner host (flag_timeout fl * 1000000) (flag_retries fl) in
         if flag_popular fl then
           (case ScanPopularPorts rt scanner of
              None \<Rightarrow> None
            | Some (Inl e) \<Rightarrow> Some (Inl e)
            | Some (Inr sc) \<Rightarrow>
                Some (Inr \<lparr>stdout =
                             [''Scanning '' @ host @
                              '' for popular ports (web, databases, remote access, etc.)...''] @
                             summary rt (results sc),
                           scanned = Some sc\<rparr>))
         else
           (case Scan rt scanner startPort endPort of
              None \<Rightarrow> None
            | Some (Inl e) \<Rightarrow> Some (Inl e)
            | Some (Inr sc) \<Rightarrow>
                Some (Inr \<lparr>stdout =
                             [''Scanning '' @ host @ '' from port '' @ fmt_d (sint startPort) @
                              '' to '' @ fmt_d (sint endPort) @ ''...'',
                              ''This may take a while depending on the range...''] @
                             summary rt (results sc),
                           scanned = Some sc\<rparr>))))"

section \<open>Notions used to state the properties\<close>

text \<open>A dial succeeded: \<open>err == nil\<close> and \<open>conn != nil\<close>.\<close>

definition connected :: "dial_result \<Rightarrow> bool" where
  "connected r \<longleftrightarrow> snd r = None \<and> fst r \<noteq> None"


text \<open>The addresses dialled in a trace, and the number of connection attempts.\<close>

fun addresses :: "event list \<Rightarrow> string list" where
  "addresses [] = []"
| "addresses (Dial a t # es) = a # addresses es"
| "addresses (e # es) = addresses es"

definition dials :: "event list \<Rightarrow> nat" where
  "dials es = length (addresses es)"

text \<open>The address \<open>ScanPort\<close> formats for a port.\<close>

definition address :: "PortScanner \<Rightarrow> go_int \<Rightarrow> string" where
  "address ps port = host ps @ '':'' @ fmt_d (sint port)"

text \<open>The answer to the dial a probe of \<open>port\<close> makes after \<open>k\<close> earlier ones.\<close>

definition answer :: "runtime \<Rightarrow> PortScanner \<Rightarrow> go_int \<Rightarrow> nat \<Rightarrow> dial_result" where
  "answer rt ps port k = DialTimeout rt (address ps port) (timeout ps) k"

text \<open>The probe of \<open>port\<close> returns and has put the port on the channel.\<close>

definition reports_open :: "runtime \<Rightarrow> PortScanner \<Rightarrow> go_int \<Rightarrow> bool" where
  "reports_open rt ps port =
     (case ScanPort rt ps port of None \<Rightarrow> False | Some pr \<Rightarrow> sent pr \<noteq> None)"

text \<open>The ports of the range \<open>[s, e]\<close>, ascending.\<close>

definition port_range :: "go_int \<Rightarrow> go_int \<Rightarrow> go_int list" where
  "port_range s e = map word_of_int [sint s..sint e]"

text \<open>The largest \<open>int\<close>.\<close>

definition MaxInt :: go_int where
  "MaxInt = 0x7FFFFFFFFFFFFFFF"

text \<open>
  The scanner as the specification words it, for any port set: one probe per port, a
  result channel whose capacity is the size of the set, a wait for every probe, then the
  channel is closed, drained and sorted.
\<close>

definition scan_ports :: "runtime \<Rightarrow> PortScanner \<Rightarrow> go_int list \<Rightarrow> (fault + scan) option" where
  "scan_ports rt ps ports =
     (case make_chan (of_nat (length ports)) of
        Inl e \<Rightarrow> Some (Inl e)
      | Inr ch0 \<Rightarrow>
          (case Wait rt ps ports ch0 of
             None \<Rightarrow> None
           | Some (Inl e) \<Rightarrow> Some (Inl e)
           | Some (Inr (ch, prs)) \<Rightarrow>
               (case drain (close ch) of
                  Inl e \<Rightarrow> Some (Inl e)
                | Inr rs \<Rightarrow>
                    Some (Inr \<lparr>results = sort_Ints rs, chan_cap = capacity ch0,
                               started = ports, probes = prs\<rparr>))))"

text \<open>
  The same environment with other read outcomes: \<open>f address k\<close> is what \<open>conn.Read\<close>
  yields on the connection of the dial of \<open>address\<close> made after \<open>k\<close> earlier ones.
\<close>

definition with_reads :: "(string \<Rightarrow> nat \<Rightarrow> read_outcome) \<Rightarrow> runtime \<Rightarrow> runtime" where
  "with_reads f rt =
     rt\<lparr>DialTimeout := \<lambda>a t k.
          (map_option (\<lambda>c. c\<lparr>read_reply := f a k\<rparr>) (fst (DialTimeout rt a t k)),
           snd (DialTimeout rt a t k))\<rparr>"

text \<open>The ports a run of \<open>main\<close> started a probe for, and its connection attempts in all.\<close>

definition dispatched :: "run \<Rightarrow> go_int list" where
  "dispatched r = (case scanned r of None \<Rightarrow> [] | Some sc \<Rightarrow> started sc)"

definition connection_attempts :: "run \<Rightarrow> nat" where
  "connection_attempts r =
     (case scanned r of None \<Rightarrow> 0 | Some sc \<Rightarrow> sum_list (map (\<lambda>pr. dials (trace pr)) (probes sc)))"

section \<open>Concrete runs\<close>

text \<open>
  A host \<open>h\<close> with a listener on port 25 and one on port 22 that accepts only the second
  connection attempt; every other dial is refused. Goroutines 3, 1 and 7 finish first.
\<close>

definition demo_rt :: runtime where
  "demo_rt =
     \<lparr>DialTimeout = (\<lambda>a t k.
        if a = ''h:25'' \<or> (a = ''h:22'' \<and> k = 1) then (Some \<lparr>read_reply = ReadDeadline\<rparr>, None)
        else (None, Some Refused)),
      completion = [3, 1, 7], elapsed = ''2.3s''\<rparr>"

text \<open>Listeners on 22 and 80; the other dials time out; the last goroutines finish first.\<close>

definition demo_rt' :: runtime where
  "demo_rt' =
     \<lparr>DialTimeout = (\<lambda>a t k.
        if a = ''h:80'' \<or> a = ''h:22'' then (Some \<lparr>read_reply = ReadByte 83\<rparr>, None)
        else (None, Some TimedOut)),
      completion = [6, 5, 4, 3, 2, 1, 0], elapsed = ''1.1s''\<rparr>"

text \<open>As \<open>demo_rt'\<close>, with refusals for time-outs and another completion order.\<close>

definition demo_rt'' :: runtime where
  "demo_rt'' =
     \<lparr>DialTimeout = (\<lambda>a t k.
        if a = ''h:80'' \<or> a = ''h:22'' then (Some \<lparr>read_reply = ReadEOF\<rparr>, None)
        else (None, Some Refused)),
      completion = [2, 5, 0], elapsed = ''0.9s''\<rparr>"

text \<open>No listener at all.\<close>

definition refusing :: runtime where
  "refusing = \<lparr>DialTimeout = (\<lambda>a t k. (None, Some Refused)), completion = [], elapsed = ''0s''\<rparr>"

definition unreachable :: runtime where
  "unreachable =
     \<lparr>DialTimeout = (\<lambda>a t k. (None, Some (if even k then Unreachable else NoSuchHost))),
      completion = [1, 0], elapsed = ''0s''\<rparr>"

text \<open>Timeout 200 ms, two retries.\<close>

definition demo_ps :: PortScanner where
  "demo_ps = NewPortScanner ''h'' 200000000 2"

definition demo_flags :: flags where
  "demo_flags =
     \<lparr>flag_host = ''h'', flag_start = 0, flag_end = 70000, flag_timeout = 200,
      flag_retries = 1, flag_popular = False, flag_thx = False\<rparr>"


text \<open>A scanner whose retry count is the largest \<open>int\<close>.\<close>

definition patient_ps :: PortScanner where
  "patient_ps = NewPortScanner ''h'' 200000000 MaxInt"


section \<open>The probe loop\<close>

lemma sint_succ: "sint (x::go_int) < 2^63 - 1 \<Longrightarrow> sint (x + 1) = sint x + 1"
  using sint_ge[of x]
  by (simp add: sint_word_ariths signed_take_bit_int_eq_self)

lemma sint_MaxInt: "sint MaxInt = 2^63 - 1"
  by (simp add: MaxInt_def)

lemma sint_le_MaxInt: "sint (x::go_int) \<le> 2^63 - 1"
  using sint_lt[of x] by simp

lemma attempts_exit:
  "\<not> sint attempt \<le> sint (retryCount ps) \<Longrightarrow>
   attempts rt ps a p attempt k tr = Some \<lparr>sent = None, trace = tr\<rparr>"
  by (subst attempts.simps) simp

lemma attempts_hit:
  "sint attempt \<le> sint (retryCount ps) \<Longrightarrow> connected (DialTimeout rt a (timeout ps) k) \<Longrightarrow>
   attempts rt ps a p attempt k tr =
     Some \<lparr>sent = Some p,
           trace = tr @ [Dial a (timeout ps), SetDeadline (timeout ps), SetReadDeadline, Read, Close]\<rparr>"
  by (subst attempts.simps) (simp add: connected_def Let_def)

lemma attempts_miss:
  "sint attempt \<le> sint (retryCount ps) \<Longrightarrow> \<not> connected (DialTimeout rt a (timeout ps) k) \<Longrightarrow>
   attempts rt ps a p attempt k tr =
     attempts rt ps a p (attempt + 1) (Suc k)
       (tr @ Dial a (timeout ps) # (if sint attempt < sint (retryCount ps) then [Sleep] else []))"
  by (subst attempts.simps) (auto simp add: connected_def Let_def)

lemma addresses_append: "addresses (xs @ ys) = addresses xs @ addresses ys"
  by (induction xs rule: addresses.induct) auto

lemma attempts_first_hit:
  "sint attempt + int m \<le> sint (retryCount ps) \<Longrightarrow>
   \<forall>j<m. \<not> connected (DialTimeout rt a (timeout ps) (k + j)) \<Longrightarrow>
   connected (DialTimeout rt a (timeout ps) (k + m)) \<Longrightarrow>
   \<exists>pr. attempts rt ps a p attempt k tr = Some pr \<and> sent pr = Some p \<and>
        addresses (trace pr) = addresses tr @ replicate (Suc m) a"
proof (induction m arbitrary: attempt k tr)
  case 0
  then show ?case by (simp add: attempts_hit addresses_append replicate_app_Cons_same)
next
  case (Suc m)
  have le: "sint attempt \<le> sint (retryCount ps)" using Suc.prems(1) by simp
  have lt: "sint attempt < 2^63 - 1" using Suc.prems(1) sint_le_MaxInt[of "retryCount ps"] by simp
  have miss: "\<not> connected (DialTimeout rt a (timeout ps) k)" using Suc.prems(2) by force
  have s1: "sint (attempt + 1) + int m \<le> sint (retryCount ps)"
    using Suc.prems(1) by (simp add: sint_succ[OF lt])
  have s2: "\<forall>j<m. \<not> connected (DialTimeout rt a (timeout ps) (Suc k + j))"
    using Suc.prems(2) by auto
  have s3: "connected (DialTimeout rt a (timeout ps) (Suc k + m))"
    using Suc.prems(3) by simp
  from Suc.IH[OF s1 s2 s3, of "tr @ Dial a (timeout ps) # (if sint attempt < sint (retryCount ps) then [Sleep] else [])"]
  show ?case
    by (auto simp add: attempts_miss[OF le miss] addresses_append replicate_app_Cons_same)
qed

lemma attempts_all_miss:
  "sint (retryCount ps) < 2^63 - 1 \<Longrightarrow>
   int n = sint (retryCount ps) + 1 - sint attempt \<Longrightarrow>
   \<forall>j<n. \<not> connected (DialTimeout rt a (timeout ps) (k + j)) \<Longrightarrow>
   \<exists>pr. attempts rt ps a p attempt k tr = Some pr \<and> sent pr = None \<and>
        addresses (trace pr) = addresses tr @ replicate n a"
proof (induction n arbitrary: attempt k tr)
  case 0
  then show ?case by (simp add: attempts_exit)
next
  case (Suc n)
  have le: "sint attempt \<le> sint (retryCount ps)" using Suc.prems(2) by simp
  have lt: "sint attempt < 2^63 - 1" using le Suc.prems(1) by simp
  have miss: "\<not> connected (DialTimeout rt a (timeout ps) k)" using Suc.prems(3) by force
  have s1: "int n = sint (retryCount ps) + 1 - sint (attempt + 1)"
    using Suc.prems(2) by (simp add: sint_succ[OF lt])
  have s2: "\<forall>j<n. \<not> connected (DialTimeout rt a (timeout ps) (Suc k + j))"
    using Suc.prems(3) by auto
  from Suc.IH[OF Suc.prems(1) s1 s2, of "tr @ Dial a (timeout ps) # (if sint attempt < sint (retryCount ps) then [Sleep] else [])"]
  show ?case
    by (auto simp add: attempts_miss[OF le miss] addresses_append replicate_app_Cons_same)
qed

lemma attempts_sent:
  "attempts rt ps a p attempt k tr = Some pr \<Longrightarrow> sent pr = None \<or> sent pr = Some p"
proof (induction rule: attempts.raw_induct[rotated 1, consumes 1])
  case (1 att rt ps a p attempt k tr pr)
  then show ?case
    by (auto simp add: Let_def split: if_splits)
qed

lemma attempts_diverge:
  assumes "sint (retryCount ps) = 2^63 - 1"
      and "\<forall>j. \<not> connected (DialTimeout rt a (timeout ps) j)"
  shows "attempts rt ps a p attempt k tr = None"
proof -
  have "attempts rt ps a p attempt k tr = Some pr \<Longrightarrow>
        sint (retryCount ps) = 2^63 - 1 \<longrightarrow> (\<forall>j. \<not> connected (DialTimeout rt a (timeout ps) j)) \<longrightarrow> False" for pr
  proof (induction rule: attempts.raw_induct[rotated 1, consumes 1])
    case (1 att rt ps a p attempt k tr pr)
    show ?case
    proof (intro impI)
      assume r: "sint (retryCount ps) = 2^63 - 1"
         and d: "\<forall>j. \<not> connected (DialTimeout rt a (timeout ps) j)"
      have le: "sint attempt \<le> sint (retryCount ps)" using sint_le_MaxInt[of attempt] r by simp
      from d have "\<not> connected (DialTimeout rt a (timeout ps) k)" by simp
      with 1(2) le obtain tr' where "att rt ps a p (attempt + 1) (Suc k) tr' = Some pr"
        by (auto simp add: Let_def connected_def split: if_splits)
      from 1(1)[OF this] r d show False by simp
    qed
  qed
  with assms show ?thesis by (cases "attempts rt ps a p attempt k tr") auto
qed

lemma attempts_agree_Some:
  "attempts rt ps a p attempt k tr = Some pr \<Longrightarrow>
   \<forall>rt'::runtime. (\<forall>j. connected (DialTimeout rt' a (timeout ps) j) = connected (DialTimeout rt a (timeout ps) j))
      \<longrightarrow> attempts rt' ps a p attempt k tr = Some pr"
proof (induction rule: attempts.raw_induct[rotated 1, consumes 1])
  case (1 att rt ps a p attempt k tr pr)
  show ?case
  proof (intro allI impI)
    fix rt' :: runtime
    assume agree: "\<forall>j. connected (DialTimeout rt' a (timeout ps) j) = connected (DialTimeout rt a (timeout ps) j)"
    show "attempts rt' ps a p attempt k tr = Some pr"
    proof (cases "sint attempt \<le> sint (retryCount ps)")
      case False
      with 1(2) show ?thesis by (simp add: attempts_exit)
    next
      case le: True
      show ?thesis
      proof (cases "connected (DialTimeout rt a (timeout ps) k)")
        case True
        with agree have "connected (DialTimeout rt' a (timeout ps) k)" by simp
        from attempts_hit[OF le this] 1(2) le True show ?thesis
          by (simp add: connected_def Let_def)
      next
        case False
        with agree have miss: "\<not> connected (DialTimeout rt' a (timeout ps) k)" by simp
        from 1(2) le False
        have "att rt ps a p (attempt + 1) (Suc k)
                (tr @ Dial a (timeout ps) # (if sint attempt < sint (retryCount ps) then [Sleep] else [])) = Some pr"
          by (auto simp add: connected_def Let_def split: if_splits)
        from 1(1)[OF this] agree show ?thesis
          by (simp add: attempts_miss[OF le miss])
      qed
    qed
  qed
qed

lemma attempts_agree:
  assumes "\<forall>j. connected (DialTimeout rt' a (timeout ps) j) = connected (DialTimeout rt a (timeout ps) j)"
  shows "attempts rt' ps a p attempt k tr = attempts rt ps a p attempt k tr"
proof (cases "attempts rt ps a p attempt k tr")
  case (Some pr)
  from attempts_agree_Some[OF this] assms show ?thesis using Some by simp
next
  case None
  show ?thesis
  proof (cases "attempts rt' ps a p attempt k tr")
    case (Some pr)
    from attempts_agree_Some[OF this] assms have "attempts rt ps a p attempt k tr = Some pr" by simp
    with None show ?thesis by simp
  qed (simp add: None)
qed

lemma attempts_addresses:
  "attempts rt ps a p attempt k tr = Some pr \<Longrightarrow>
   set (addresses (trace pr)) \<subseteq> insert a (set (addresses tr))"
proof (induction rule: attempts.raw_induct[rotated 1, consumes 1])
  case (1 att rt ps a p attempt k tr pr)
  then show ?case
    by (fastforce simp add: Let_def addresses_append split: if_splits)
qed

section \<open>Probes\<close>

lemma ScanPort_attempts:
  "ScanPort rt ps port = attempts rt ps (address ps port) port 0 0 []"
  by (simp add: ScanPort_def address_def)

lemma ScanPort_first_hit:
  assumes "int m \<le> sint (retryCount ps)"
      and "\<forall>j<m. \<not> connected (answer rt ps port j)"
      and "connected (answer rt ps port m)"
  shows "\<exists>pr. ScanPort rt ps port = Some pr \<and> sent pr = Some port \<and>
              addresses (trace pr) = replicate (Suc m) (address ps port)"
  using attempts_first_hit[of 0 m ps rt "address ps port" 0 port "[]"] assms
  by (simp add: ScanPort_attempts answer_def)

lemma ScanPort_all_miss:
  assumes "sint (retryCount ps) < 2^63 - 1"
      and "\<forall>j. int j \<le> sint (retryCount ps) \<longrightarrow> \<not> connected (answer rt ps port j)"
  shows "\<exists>pr. ScanPort rt ps port = Some pr \<and> sent pr = None \<and>
              addresses (trace pr) = replicate (nat (sint (retryCount ps) + 1)) (address ps port)"
proof (cases "0 \<le> sint (retryCount ps)")
  case True
  have "\<forall>j<nat (sint (retryCount ps) + 1). \<not> connected (DialTimeout rt (address ps port) (timeout ps) (0 + j))"
    using assms(2) by (auto simp add: answer_def)
  from attempts_all_miss[OF assms(1) _ this, of 0 port "[]"] True
  show ?thesis by (simp add: ScanPort_attempts)
next
  case False
  then show ?thesis by (simp add: ScanPort_attempts attempts_exit)
qed

lemma ScanPort_returns:
  assumes "sint (retryCount ps) < 2^63 - 1"
  shows "\<exists>pr. ScanPort rt ps port = Some pr"
proof (cases "\<exists>j. int j \<le> sint (retryCount ps) \<and> connected (answer rt ps port j)")
  case True
  define m where "m = (LEAST j. int j \<le> sint (retryCount ps) \<and> connected (answer rt ps port j))"
  from True have m: "int m \<le> sint (retryCount ps) \<and> connected (answer rt ps port m)"
    unfolding m_def by (rule LeastI_ex)
  have "\<forall>j<m. \<not> connected (answer rt ps port j)"
  proof (intro allI impI)
    fix j assume "j < m"
    then have "\<not> (int j \<le> sint (retryCount ps) \<and> connected (answer rt ps port j))"
      unfolding m_def by (rule not_less_Least)
    with \<open>j < m\<close> m show "\<not> connected (answer rt ps port j)" by simp
  qed
  with ScanPort_first_hit[of m ps rt port] m show ?thesis by blast
next
  case False
  with ScanPort_all_miss[OF assms, of rt port] show ?thesis by blast
qed

lemma ScanPort_sent:
  "ScanPort rt ps port = Some pr \<Longrightarrow> sent pr = None \<or> sent pr = Some port"
  by (simp add: ScanPort_attempts attempts_sent)

lemma ScanPort_addresses:
  "ScanPort rt ps port = Some pr \<Longrightarrow> set (addresses (trace pr)) \<subseteq> {address ps port}"
  using attempts_addresses[of rt ps "address ps port" port 0 0 "[]" pr]
  by (simp add: ScanPort_attempts)

lemma ScanPort_agree:
  assumes "\<forall>j. connected (answer rt' ps port j) = connected (answer rt ps port j)"
  shows "ScanPort rt' ps port = ScanPort rt ps port"
  using attempts_agree[of rt' "address ps port" ps rt port 0 0 "[]"] assms
  by (simp add: ScanPort_attempts answer_def)

lemma ScanPort_negative:
  "sint (retryCount ps) < 0 \<Longrightarrow> ScanPort rt ps port = Some \<lparr>sent = None, trace = []\<rparr>"
  by (simp add: ScanPort_attempts attempts_exit)

lemma ScanPort_diverges:
  assumes "retryCount ps = MaxInt" and "\<forall>j. \<not> connected (answer rt ps port j)"
  shows "ScanPort rt ps port = None"
  using attempts_diverge[of ps rt "address ps port" port 0 0 "[]"] assms
  by (simp add: ScanPort_attempts answer_def sint_MaxInt)

section \<open>Channels and the wait group\<close>

lemma those_map:
  "those (map f xs) = (if \<forall>x\<in>set xs. f x \<noteq> None then Some (map (\<lambda>x. the (f x)) xs) else None)"
  by (induction xs) (auto split: option.splits)

lemma finish_order_perm: "mset (finish_order n sched) = mset [0..<n]"
proof -
  define named where "named = remdups (filter (\<lambda>i. i < n) sched)"
  have d: "distinct (named @ filter (\<lambda>i. i \<notin> set named) [0..<n])"
    by (auto simp add: named_def)
  have s: "set (named @ filter (\<lambda>i. i \<notin> set named) [0..<n]) = set [0..<n]"
    by (auto simp add: named_def)
  have "mset (named @ filter (\<lambda>i. i \<notin> set named) [0..<n]) = mset [0..<n]"
    using d s by (metis distinct_upt set_eq_iff_mset_eq_distinct)
  then show ?thesis by (simp add: finish_order_def named_def Let_def)
qed

lemma deliver_room:
  "length (queue ch) + length vs \<le> capacity ch \<Longrightarrow>
   deliver ch vs = Some (ch\<lparr>queue := queue ch @ List.map_filter (\<lambda>v. v) vs\<rparr>)"
proof (induction ch vs rule: deliver.induct)
  case (1 ch)
  then show ?case by (simp add: List.map_filter_simps)
next
  case (2 ch vs)
  then show ?case by (simp add: List.map_filter_simps)
next
  case (3 ch v vs)
  then show ?case by (simp add: List.map_filter_simps send_def)
qed


lemma mset_map_filter: "mset (List.map_filter f xs) = {#the (f x). x \<in># filter_mset (\<lambda>x. f x \<noteq> None) (mset xs)#}"
  by (simp add: List.map_filter_def comp_def)

lemma sort_Ints_mset: "mset xs = mset ys \<Longrightarrow> sort_Ints xs = sort_Ints ys"
proof -
  assume eq: "mset xs = mset ys"
  have "sort_key sint xs = sort_key sint ys"
  proof (rule sort_key_inj_key_eq)
    show "mset xs = mset (sort_key sint ys)" using eq by simp
    show "inj_on sint (set xs)" by (auto simp add: inj_on_def intro: signed_word_eqI)
    show "sorted (map sint (sort_key sint ys))" by simp
  qed
  then show ?thesis by (simp add: sort_Ints_def)
qed

lemma spawn_each_append: "spawn_each xs acc = acc @ xs"
  by (induction xs arbitrary: acc) auto

lemma spawn_range:
  "sint e < 2^63 - 1 \<Longrightarrow> int n = (if sint s \<le> sint e then sint e + 1 - sint s else 0) \<Longrightarrow>
   spawn s e acc = Some (acc @ port_range s e)"
proof (induction n arbitrary: s acc)
  case 0
  then have "\<not> sint s \<le> sint e" by (auto split: if_splits)
  then show ?case by (subst spawn.simps) (simp add: port_range_def)
next
  case (Suc n)
  then have le: "sint s \<le> sint e" by (auto split: if_splits)
  then have lt: "sint s < 2^63 - 1" using Suc.prems(1) by simp
  have n: "int n = (if sint (s + 1) \<le> sint e then sint e + 1 - sint (s + 1) else 0)"
    using Suc.prems(2) le by (auto simp add: sint_succ[OF lt])
  have "[sint s..sint e] = sint s # [sint s + 1..sint e]"
    using le by (simp add: upto_rec1)
  then have "port_range s e = s # port_range (s + 1) e"
    by (simp add: port_range_def sint_succ[OF lt])
  with Suc.IH[OF Suc.prems(1) n, of "acc @ [s]"] le show ?case
    by (subst spawn.simps) simp
qed

lemma map_filter_map_id: "List.map_filter (\<lambda>v. v) (map g xs) = List.map_filter g xs"
  by (induction xs) (simp_all add: List.map_filter_simps split: option.splits)

lemma mset_map_filter_cong:
  "mset xs = mset ys \<Longrightarrow> mset (List.map_filter f xs) = mset (List.map_filter f ys)"
  by (simp add: mset_map_filter)

lemma map_filter_nth: "List.map_filter (\<lambda>i. g (xs ! i)) [0..<length xs] = List.map_filter g xs"
proof -
  have "map (\<lambda>i. g (xs ! i)) [0..<length xs] = map g xs"
    by (rule nth_equalityI) simp_all
  then have "List.map_filter (\<lambda>v. v) (map (\<lambda>i. g (xs ! i)) [0..<length xs]) =
        List.map_filter (\<lambda>v. v) (map g xs)"
    by simp
  then show ?thesis by (simp only: map_filter_map_id)
qed

lemma sent_probes:
  "\<forall>p\<in>set ports. ScanPort rt ps p \<noteq> None \<Longrightarrow>
   List.map_filter sent (map (\<lambda>p. the (ScanPort rt ps p)) ports) = filter (reports_open rt ps) ports"
proof (induction ports)
  case Nil
  then show ?case by (simp add: List.map_filter_simps)
next
  case (Cons p ports)
  from Cons.prems obtain pr where pr: "ScanPort rt ps p = Some pr" by auto
  from ScanPort_sent[OF pr] Cons show ?case
    by (auto simp add: List.map_filter_simps reports_open_def pr)
qed

lemma queue_after_wait:
  assumes "\<forall>p\<in>set ports. ScanPort rt ps p \<noteq> None"
  defines "prs \<equiv> map (\<lambda>p. the (ScanPort rt ps p)) ports"
  shows "mset (List.map_filter (\<lambda>v. v) (map (\<lambda>i. sent (prs ! i)) (finish_order (length prs) sched)))
         = mset (filter (reports_open rt ps) ports)"
proof -
  have "mset (List.map_filter (\<lambda>i. sent (prs ! i)) (finish_order (length prs) sched))
        = mset (List.map_filter (\<lambda>i. sent (prs ! i)) [0..<length prs])"
    by (rule mset_map_filter_cong) (rule finish_order_perm)
  also have "\<dots> = mset (List.map_filter sent prs)" by (simp add: map_filter_nth)
  also have "\<dots> = mset (filter (reports_open rt ps) ports)"
    using sent_probes[OF assms(1)] by (simp add: prs_def)
  finally show ?thesis by (simp add: map_filter_map_id)
qed

lemma Wait_returns:
  assumes "\<forall>p\<in>set ports. ScanPort rt ps p \<noteq> None"
      and "length (queue ch) + length ports \<le> capacity ch"
  shows "Wait rt ps ports ch =
         Some (Inr (ch\<lparr>queue := queue ch @
                      List.map_filter (\<lambda>v. v)
                        (map (\<lambda>i. sent (map (\<lambda>p. the (ScanPort rt ps p)) ports ! i))
                           (finish_order (length ports) (completion rt)))\<rparr>,
                    map (\<lambda>p. the (ScanPort rt ps p)) ports))"
proof -
  have t: "those (map (ScanPort rt ps) ports) = Some (map (\<lambda>p. the (ScanPort rt ps p)) ports)"
    using assms(1) by (simp add: those_map)
  have "length (queue ch) +
        length (map (\<lambda>i. sent (map (\<lambda>p. the (ScanPort rt ps p)) ports ! i))
                  (finish_order (length ports) (completion rt))) \<le> capacity ch"
    using assms(2) mset_eq_length[OF finish_order_perm[of "length ports" "completion rt"]]
    by simp
  from deliver_room[OF this] show ?thesis
    by (simp add: Wait_def t)
qed

lemma Wait_hangs:
  "\<exists>p\<in>set ports. ScanPort rt ps p = None \<Longrightarrow> Wait rt ps ports ch = None"
  by (auto simp add: Wait_def those_map)

section \<open>The generic scanner\<close>

lemma sint_of_nat_small: "n < 2^63 \<Longrightarrow> sint (of_nat n :: go_int) = int n"
  by (simp add: signed_of_nat signed_take_bit_int_eq_self)

lemma make_chan_of_nat:
  assumes "8 * int n \<le> maxAlloc - hchanSize"
  shows "make_chan (of_nat n) = Inr \<lparr>capacity = n, queue = [], closed = False\<rparr>"
proof -
  from assms have "n < 2^63" by (simp add: maxAlloc_def hchanSize_def)
  then have "sint (of_nat n :: go_int) = int n" by (rule sint_of_nat_small)
  with assms show ?thesis by (simp add: make_chan_def)
qed

lemma scan_ports_returns:
  assumes "\<forall>p\<in>set ports. ScanPort rt ps p \<noteq> None" and "8 * int (length ports) \<le> maxAlloc - hchanSize"
  shows "scan_ports rt ps ports =
         Some (Inr \<lparr>results = sort_Ints (filter (reports_open rt ps) ports),
                    chan_cap = length ports, started = ports,
                    probes = map (\<lambda>p. the (ScanPort rt ps p)) ports\<rparr>)"
proof -
  have mk: "make_chan (of_nat (length ports)) =
            Inr \<lparr>capacity = length ports, queue = [], closed = False\<rparr>"
    using assms(2) by (rule make_chan_of_nat)
  have w: "Wait rt ps ports \<lparr>capacity = length ports, queue = [], closed = False\<rparr> =
           Some (Inr (\<lparr>capacity = length ports,
                       queue = List.map_filter (\<lambda>v. v)
                        (map (\<lambda>i. sent (map (\<lambda>p. the (ScanPort rt ps p)) ports ! i))
                           (finish_order (length ports) (completion rt))),
                       closed = False\<rparr>,
                      map (\<lambda>p. the (ScanPort rt ps p)) ports))"
    using Wait_returns[OF assms(1), of "\<lparr>capacity = length ports, queue = [], closed = False\<rparr>"]
    by simp
  have s: "sort_Ints (List.map_filter (\<lambda>v. v)
                        (map (\<lambda>i. sent (map (\<lambda>p. the (ScanPort rt ps p)) ports ! i))
                           (finish_order (length ports) (completion rt))))
           = sort_Ints (filter (reports_open rt ps) ports)"
    using queue_after_wait[OF assms(1), of "completion rt"]
    by (intro sort_Ints_mset) simp
  show ?thesis
    by (simp add: scan_ports_def mk w close_def drain_def s)
qed

lemma scan_ports_hangs:
  assumes "\<exists>p\<in>set ports. ScanPort rt ps p = None" and "8 * int (length ports) \<le> maxAlloc - hchanSize"
  shows "scan_ports rt ps ports = None"
  using assms by (simp add: scan_ports_def make_chan_of_nat Wait_hangs)

lemma length_port_range: "length (port_range s e) = nat (sint e - sint s + 1)"
  by (simp add: port_range_def)

lemma Scan_scan_ports:
  assumes "sint e < 2^63 - 1" and "sint s \<le> sint e + 1"
  shows "Scan rt ps s e = scan_ports rt ps (port_range s e)"
proof -
  have "(of_nat (length (port_range s e)) :: go_int) = word_of_int (sint e - sint s + 1)"
    using assms(2) by (simp add: length_port_range)
  also have "\<dots> = e - s + 1" by simp
  finally have c: "of_nat (length (port_range s e)) = e - s + 1" .
  have sp: "spawn s e [] = Some (port_range s e)"
    using spawn_range[OF assms(1), of "nat (if sint s \<le> sint e then sint e + 1 - sint s else 0)" s "[]"]
    by simp
  show ?thesis
    by (simp add: Scan_def scan_ports_def c sp split: sum.splits option.splits prod.splits)
qed

lemma ScanPopularPorts_scan_ports: "ScanPopularPorts rt ps = scan_ports rt ps getPopularPorts"
  by (simp add: ScanPopularPorts_def scan_ports_def spawn_each_append Let_def
        split: sum.splits option.splits prod.splits)

section \<open>Ranges and the two entry points\<close>

lemma map_sint_port_range: "map sint (port_range s e) = [sint s..sint e]"
proof -
  have "sint (word_of_int i :: go_int) = i" if "i \<in> set [sint s..sint e]" for i
  proof -
    from that have "- (2^63) \<le> i" "i < 2^63"
      using sint_ge[of s] sint_lt[of e] by auto
    then show ?thesis by (simp add: sint_sbintrunc' signed_take_bit_int_eq_self)
  qed
  then have "map (\<lambda>i. sint (word_of_int i :: go_int)) [sint s..sint e] = [sint s..sint e]"
    by (intro map_idI)
  then show ?thesis by (simp add: port_range_def comp_def)
qed

lemma set_port_range: "set (port_range s e) = {p. sint s \<le> sint p \<and> sint p \<le> sint e}"
proof (intro set_eqI iffI)
  fix p :: go_int assume "p \<in> set (port_range s e)"
  then have "sint p \<in> set (map sint (port_range s e))" by simp
  then show "p \<in> {p. sint s \<le> sint p \<and> sint p \<le> sint e}"
    by (simp add: map_sint_port_range)
next
  fix p :: go_int assume "p \<in> {p. sint s \<le> sint p \<and> sint p \<le> sint e}"
  then have "sint p \<in> {sint s..sint e}" by simp
  then have "word_of_int (sint p) \<in> (word_of_int ` {sint s..sint e} :: go_int set)"
    by (rule imageI)
  then show "p \<in> set (port_range s e)" by (simp add: port_range_def)
qed

lemma distinct_port_range: "distinct (port_range s e)"
proof -
  have "distinct (map sint (port_range s e))" by (simp add: map_sint_port_range)
  then show ?thesis by (simp add: distinct_map)
qed

lemma ascending_port_range: "sorted_wrt (\<lambda>a b. sint a < sint b) (port_range s e)"
proof -
  have "sorted_wrt (<) (map sint (port_range s e))"
    by (simp add: map_sint_port_range)
  then show ?thesis by (simp add: sorted_wrt_map)
qed

lemma ascending_filter:
  "sorted_wrt (\<lambda>a b. sint a < sint b) xs \<Longrightarrow> sort_Ints (filter P xs) = filter P xs"
proof -
  assume "sorted_wrt (\<lambda>a b. sint a < sint b) xs"
  then have "sorted_wrt (\<lambda>a b. sint a < sint b) (filter P xs)" by (rule sorted_wrt_filter)
  then have "sorted_wrt (\<lambda>a b. sint a \<le> sint b) (filter P xs)"
    by (rule sorted_wrt_mono_rel[rotated]) simp
  then have "sorted (map sint (filter P xs))" by (simp add: sorted_wrt_map)
  then show ?thesis unfolding sort_Ints_def by (rule sort_key_id_if_sorted)
qed

lemma Scan_valid_range:
  assumes "1 \<le> sint s" "sint s \<le> sint e" "sint e \<le> 65535"
  shows "Scan rt ps s e = scan_ports rt ps (port_range s e)"
    and "8 * int (length (port_range s e)) \<le> maxAlloc - hchanSize"
  using assms by (simp_all add: Scan_scan_ports length_port_range maxAlloc_def hchanSize_def)

lemma Scan_returns:
  assumes "1 \<le> sint s" "sint s \<le> sint e" "sint e \<le> 65535"
      and "\<forall>p\<in>set (port_range s e). ScanPort rt ps p \<noteq> None"
  shows "Scan rt ps s e =
         Some (Inr \<lparr>results = filter (reports_open rt ps) (port_range s e),
                    chan_cap = length (port_range s e), started = port_range s e,
                    probes = map (\<lambda>p. the (ScanPort rt ps p)) (port_range s e)\<rparr>)"
  using scan_ports_returns[OF assms(4) Scan_valid_range(2)[OF assms(1-3)]]
  by (simp add: Scan_valid_range(1)[OF assms(1-3)] ascending_filter[OF ascending_port_range])

lemma Scan_hangs:
  assumes "1 \<le> sint s" "sint s \<le> sint e" "sint e \<le> 65535"
      and "\<exists>p\<in>set (port_range s e). ScanPort rt ps p = None"
  shows "Scan rt ps s e = None"
  using scan_ports_hangs[OF assms(4) Scan_valid_range(2)[OF assms(1-3)]]
  by (simp add: Scan_valid_range(1)[OF assms(1-3)])

lemma ScanPort_returns': "retryCount ps \<noteq> MaxInt \<Longrightarrow> ScanPort rt ps port \<noteq> None"
proof -
  assume "retryCount ps \<noteq> MaxInt"
  then have "sint (retryCount ps) \<noteq> sint MaxInt" by (auto intro: signed_word_eqI)
  then have "sint (retryCount ps) < 2^63 - 1"
    using sint_le_MaxInt[of "retryCount ps"] by (simp add: sint_MaxInt)
  from ScanPort_returns[OF this] show ?thesis by auto
qed

section \<open>Completed scans\<close>

lemmas run_simps =
  ScanPort_def NewPortScanner_def fmt_d_def digits.simps attempts_exit attempts_hit
  attempts_miss connected_def reports_open_def address_def answer_def port_range_def upto_rec1

lemma those_map_Some: "those (map f xs) = Some ys \<Longrightarrow> map Some ys = map f xs"
  by (auto simp add: those_map split: if_splits)

lemma scan_ports_completes:
  assumes "8 * int (length ports) \<le> maxAlloc - hchanSize" and "scan_ports rt ps ports = Some out"
  shows "out = Inr \<lparr>results = sort_Ints (filter (reports_open rt ps) ports),
                    chan_cap = length ports, started = ports,
                    probes = map (\<lambda>p. the (ScanPort rt ps p)) ports\<rparr> \<and>
         (\<forall>p\<in>set ports. ScanPort rt ps p \<noteq> None)"
proof (cases "\<forall>p\<in>set ports. ScanPort rt ps p \<noteq> None")
  case True
  with scan_ports_returns[OF True assms(1)] assms(2) show ?thesis by simp
next
  case False
  then have "\<exists>p\<in>set ports. ScanPort rt ps p = None" by simp
  from scan_ports_hangs[OF this assms(1)] assms(2) show ?thesis by simp
qed

lemma probes_observed:
  "\<forall>p\<in>set ports. ScanPort rt ps p \<noteq> None \<Longrightarrow>
   map Some (map (\<lambda>p. the (ScanPort rt ps p)) ports) = map (ScanPort rt ps) ports"
  by (induction ports) auto

lemma distinct_getPopularPorts: "distinct getPopularPorts"
  by (simp add: getPopularPorts_def)

lemma length_getPopularPorts: "length getPopularPorts = 33"
  by (simp add: getPopularPorts_def)

lemma getPopularPorts_fits: "8 * int (length getPopularPorts) \<le> maxAlloc - hchanSize"
  by (simp add: length_getPopularPorts maxAlloc_def hchanSize_def)

lemma mset_sort_Ints: "mset (sort_Ints xs) = mset xs"
  by (simp add: sort_Ints_def)

lemma length_sort_Ints: "length (sort_Ints xs) = length xs"
  by (simp add: sort_Ints_def)

lemma count_open:
  "distinct ports \<Longrightarrow>
   length (filter (reports_open rt ps) ports) = card {p \<in> set ports. reports_open rt ps p}"
proof -
  assume "distinct ports"
  then have "length (filter (reports_open rt ps) ports) = card ({p. reports_open rt ps p} \<inter> set ports)"
    by (rule distinct_length_filter)
  also have "{p. reports_open rt ps p} \<inter> set ports = {p \<in> set ports. reports_open rt ps p}"
    by auto
  finally show ?thesis .
qed

lemma demo_ps_returns: "ScanPort rt demo_ps port \<noteq> None"
  by (rule ScanPort_returns') (simp add: demo_ps_def NewPortScanner_def MaxInt_def)

lemma demo_range: "filter (reports_open demo_rt demo_ps) (port_range 20 26) = [22, 25]"
  by (simp add: run_simps demo_ps_def demo_rt_def)

lemma demo_popular: "filter (reports_open demo_rt' demo_ps) getPopularPorts = [80, 22]"
  by (simp add: run_simps demo_ps_def demo_rt'_def getPopularPorts_def)

section \<open>Retries\<close>

lemma dials_replicate: "addresses tr = replicate n a \<Longrightarrow> dials tr = n"
  by (simp add: dials_def)

lemma retry_budget_nat:
  "0 \<le> sint (r :: go_int) \<Longrightarrow> (int j \<le> sint r) = (j < nat (sint r) + 1)"
  by auto

lemma ScanPort_budget:
  assumes "0 \<le> sint (retryCount ps)" and "retryCount ps \<noteq> MaxInt"
  shows "\<exists>pr. ScanPort rt ps port = Some pr \<and>
           dials (trace pr) \<le> nat (sint (retryCount ps)) + 1 \<and>
           (\<forall>M. 1 \<le> M \<and> M \<le> nat (sint (retryCount ps)) + 1 \<and>
                (\<forall>j<M - 1. \<not> connected (answer rt ps port j)) \<and>
                connected (answer rt ps port (M - 1))
                \<longrightarrow> sent pr = Some port \<and> dials (trace pr) = M) \<and>
           ((\<forall>j<nat (sint (retryCount ps)) + 1. \<not> connected (answer rt ps port j))
                \<longrightarrow> sent pr = None \<and> dials (trace pr) = nat (sint (retryCount ps)) + 1)"
proof -
  let ?n = "nat (sint (retryCount ps)) + 1"
  have small: "sint (retryCount ps) < 2^63 - 1"
  proof -
    from assms(2) have "sint (retryCount ps) \<noteq> sint MaxInt" by (auto intro: signed_word_eqI)
    then show ?thesis using sint_le_MaxInt[of "retryCount ps"] by (simp add: sint_MaxInt)
  qed
  show ?thesis
  proof (cases "\<exists>j<?n. connected (answer rt ps port j)")
    case True
    define m where "m = (LEAST j. j < ?n \<and> connected (answer rt ps port j))"
    from True obtain j0 where "j0 < ?n \<and> connected (answer rt ps port j0)" by blast
    then have m: "m < ?n \<and> connected (answer rt ps port m)"
      unfolding m_def by (rule LeastI)
    have first: "\<not> connected (answer rt ps port j)" if "j < m" for j
    proof -
      from that have "\<not> (j < ?n \<and> connected (answer rt ps port j))"
        unfolding m_def by (rule not_less_Least)
      with that m show ?thesis by simp
    qed
    from m have le: "int m \<le> sint (retryCount ps)"
      by (simp add: retry_budget_nat[OF assms(1)])
    have fh: "\<forall>j<m. \<not> connected (answer rt ps port j)" using first by blast
    from ScanPort_first_hit[OF le fh conjunct2[OF m]]
    obtain pr where pr: "ScanPort rt ps port = Some pr" "sent pr = Some port"
        "addresses (trace pr) = replicate (Suc m) (address ps port)" by blast
    have d: "dials (trace pr) = Suc m" using pr(3) by (rule dials_replicate)
    have uniq: "M = Suc m"
      if "1 \<le> M" "\<forall>j<M - 1. \<not> connected (answer rt ps port j)"
         "connected (answer rt ps port (M - 1))" for M
    proof -
      have "\<not> M - 1 < m" using first that(3) by blast
      moreover have "\<not> m < M - 1" using that(2) m by blast
      ultimately show ?thesis using that(1) by simp
    qed
    show ?thesis
    proof (rule exI[of _ pr], intro conjI)
      show "ScanPort rt ps port = Some pr" by fact
      show "dials (trace pr) \<le> ?n" using d m by simp
      show "\<forall>M. 1 \<le> M \<and> M \<le> ?n \<and>
                (\<forall>j<M - 1. \<not> connected (answer rt ps port j)) \<and>
                connected (answer rt ps port (M - 1))
                \<longrightarrow> sent pr = Some port \<and> dials (trace pr) = M"
      proof (intro allI impI)
        fix M
        assume "1 \<le> M \<and> M \<le> ?n \<and>
                (\<forall>j<M - 1. \<not> connected (answer rt ps port j)) \<and>
                connected (answer rt ps port (M - 1))"
        then have "M = Suc m" using uniq by blast
        then show "sent pr = Some port \<and> dials (trace pr) = M" using pr(2) d by simp
      qed
      show "(\<forall>j<?n. \<not> connected (answer rt ps port j))
                \<longrightarrow> sent pr = None \<and> dials (trace pr) = ?n"
        using m by blast
    qed
  next
    case False
    then have "\<forall>j. int j \<le> sint (retryCount ps) \<longrightarrow> \<not> connected (answer rt ps port j)"
      using assms(1) by (simp add: retry_budget_nat)
    from ScanPort_all_miss[OF small this]
    obtain pr where pr: "ScanPort rt ps port = Some pr" "sent pr = None"
        "addresses (trace pr) = replicate (nat (sint (retryCount ps) + 1)) (address ps port)"
      by blast
    have "nat (sint (retryCount ps) + 1) = ?n" using assms(1) by simp
    with pr(3) have d: "dials (trace pr) = ?n" by (simp add: dials_def)
    have none: "\<not> connected (answer rt ps port (M - 1))" if "1 \<le> M" "M \<le> ?n" for M
    proof -
      from that have "M - 1 < ?n" by simp
      with False show ?thesis by blast
    qed
    show ?thesis
    proof (rule exI[of _ pr], intro conjI)
      show "ScanPort rt ps port = Some pr" by fact
      show "dials (trace pr) \<le> ?n" using d by simp
      show "\<forall>M. 1 \<le> M \<and> M \<le> ?n \<and>
                (\<forall>j<M - 1. \<not> connected (answer rt ps port j)) \<and>
                connected (answer rt ps port (M - 1))
                \<longrightarrow> sent pr = Some port \<and> dials (trace pr) = M"
        using none by blast
      show "(\<forall>j<?n. \<not> connected (answer rt ps port j))
                \<longrightarrow> sent pr = None \<and> dials (trace pr) = ?n"
        using pr(2) d by simp
    qed
  qed
qed

section \<open>Failed dials and ignored reads\<close>

lemma failed_not_connected: "snd r \<noteq> None \<Longrightarrow> \<not> connected r"
  by (simp add: connected_def)

lemma answer_retryCount: "answer rt (ps\<lparr>retryCount := r\<rparr>) port k = answer rt ps port k"
  by (simp add: answer_def address_def)

lemma ScanPort_closed_not_open:
  "ScanPort rt ps port = Some pr \<Longrightarrow> sent pr = None \<Longrightarrow> \<not> reports_open rt ps port"
  by (simp add: reports_open_def)

lemma ScanPort_all_fail:
  assumes "\<forall>k. \<not> connected (answer rt ps port k)" and "ScanPort rt ps port = Some pr"
  shows "sent pr = None"
proof (cases "retryCount ps = MaxInt")
  case True
  from ScanPort_diverges[OF True assms(1)] assms(2) show ?thesis by simp
next
  case False
  then have "sint (retryCount ps) \<noteq> sint MaxInt" by (auto intro: signed_word_eqI)
  then have "sint (retryCount ps) < 2^63 - 1"
    using sint_le_MaxInt[of "retryCount ps"] by (simp add: sint_MaxInt)
  from ScanPort_all_miss[OF this, of rt port] assms show ?thesis by auto
qed

lemma Wait_cong:
  "ScanPort rt' ps = ScanPort rt ps \<Longrightarrow> completion rt' = completion rt \<Longrightarrow>
   Wait rt' ps ports ch = Wait rt ps ports ch"
  by (simp add: Wait_def split: option.splits)

lemma with_reads_connected:
  "connected (DialTimeout (with_reads f rt) a t k) = connected (DialTimeout rt a t k)"
  by (simp add: with_reads_def connected_def)

lemma ScanPort_with_reads: "ScanPort (with_reads f rt) ps port = ScanPort rt ps port"
  by (rule ScanPort_agree) (simp add: answer_def with_reads_connected)

lemma Scan_with_reads: "Scan (with_reads f rt) ps s e = Scan rt ps s e"
proof -
  have "ScanPort (with_reads f rt) ps = ScanPort rt ps"
    by (rule ext) (rule ScanPort_with_reads)
  moreover have "completion (with_reads f rt) = completion rt"
    by (simp add: with_reads_def)
  ultimately have W: "Wait (with_reads f rt) ps ports ch = Wait rt ps ports ch" for ports ch
    by (rule Wait_cong)
  show ?thesis
    by (simp add: Scan_def W cong: option.case_cong sum.case_cong)
qed

lemma ScanPort_all_fail_closed:
  assumes "\<forall>k. \<not> connected (answer rt ps port k)"
  shows "\<not> reports_open rt ps port"
proof (cases "ScanPort rt ps port")
  case None
  then show ?thesis by (simp add: reports_open_def)
next
  case (Some pr)
  from ScanPort_all_fail[OF assms Some] Some show ?thesis by (simp add: reports_open_def)
qed

lemma ScanPort_single_attempt:
  assumes "\<forall>k. \<not> connected (answer rt ps port k)"
  shows "\<exists>pr0. ScanPort rt (ps\<lparr>retryCount := 0\<rparr>) port = Some pr0 \<and> sent pr0 = None \<and>
               dials (trace pr0) = 1"
proof -
  have "\<forall>j. int j \<le> sint (retryCount (ps\<lparr>retryCount := 0\<rparr>)) \<longrightarrow>
            \<not> connected (answer rt (ps\<lparr>retryCount := 0\<rparr>) port j)"
    using assms by (simp add: answer_retryCount)
  from ScanPort_all_miss[OF _ this] show ?thesis by (auto simp add: dials_def)
qed

lemma Scan_results_open:
  assumes "1 \<le> sint s" "sint s \<le> sint e" "sint e \<le> 65535"
      and "Scan rt ps s e = Some (Inr sc)"
  shows "set (results sc) = {p \<in> set (port_range s e). reports_open rt ps p}"
proof -
  from assms(4) have "scan_ports rt ps (port_range s e) = Some (Inr sc)"
    by (simp add: Scan_valid_range(1)[OF assms(1-3)])
  from scan_ports_completes[OF Scan_valid_range(2)[OF assms(1-3)] this]
  have "results sc = sort_Ints (filter (reports_open rt ps) (port_range s e))" by auto
  then show ?thesis by (simp add: sort_Ints_def)
qed

lemma ScanPopularPorts_results_open:
  assumes "ScanPopularPorts rt ps = Some (Inr sc)"
  shows "set (results sc) = {p \<in> set getPopularPorts. reports_open rt ps p}"
proof -
  from assms have "scan_ports rt ps getPopularPorts = Some (Inr sc)"
    by (simp add: ScanPopularPorts_scan_ports)
  from scan_ports_completes[OF getPopularPorts_fits this]
  have "results sc = sort_Ints (filter (reports_open rt ps) getPopularPorts)"
    by auto
  then show ?thesis by (simp add: sort_Ints_def)
qed

section \<open>The port sets\<close>

lemma scan_ports_addresses:
  assumes "8 * int (length ports) \<le> maxAlloc - hchanSize" and "scan_ports rt ps ports = Some (Inr sc)"
  shows "\<forall>pr\<in>set (probes sc). set (addresses (trace pr)) \<subseteq> address ps ` set ports"
proof
  fix pr assume pr: "pr \<in> set (probes sc)"
  from scan_ports_completes[OF assms]
  have prs: "probes sc = map (\<lambda>p. the (ScanPort rt ps p)) ports"
    and all: "\<forall>p\<in>set ports. ScanPort rt ps p \<noteq> None" by auto
  from pr prs obtain p where p: "p \<in> set ports" "pr = the (ScanPort rt ps p)" by auto
  with all have "ScanPort rt ps p = Some pr" by auto
  from ScanPort_addresses[OF this] p(1)
  show "set (addresses (trace pr)) \<subseteq> address ps ` set ports" by auto
qed

lemma scan_ports_started:
  assumes "8 * int (length ports) \<le> maxAlloc - hchanSize" and "scan_ports rt ps ports = Some (Inr sc)"
  shows "started sc = ports"
  using scan_ports_completes[OF assms] by auto

section \<open>Static listeners, idle scanners and the channel capacity\<close>

lemma ScanPort_static:
  assumes "retryCount ps \<noteq> MaxInt" and "\<forall>k. connected (answer rt ps p k) = (p \<in> S)"
  shows "reports_open rt ps p = (0 \<le> sint (retryCount ps) \<and> p \<in> S)"
proof (cases "0 \<le> sint (retryCount ps) \<and> p \<in> S")
  case True
  with assms(2) have "connected (answer rt ps p 0)" by simp
  from ScanPort_first_hit[of 0 ps rt p, OF _ _ this] True
  show ?thesis by (auto simp add: reports_open_def)
next
  case False
  show ?thesis
  proof (cases "p \<in> S")
    case True
    with False have "sint (retryCount ps) < 0" by simp
    from ScanPort_negative[OF this] False show ?thesis by (simp add: reports_open_def)
  next
    case notin: False
    with assms(2) have "\<forall>k. \<not> connected (answer rt ps p k)" by simp
    from ScanPort_all_fail_closed[OF this] notin show ?thesis by simp
  qed
qed

lemma Scan_agree:
  assumes "1 \<le> sint s" "sint s \<le> sint e" "sint e \<le> 65535"
      and "\<forall>p\<in>set (port_range s e). ScanPort rt ps p = ScanPort rt' ps p"
  shows "Scan rt ps s e = Scan rt' ps s e"
proof (cases "\<forall>p\<in>set (port_range s e). ScanPort rt ps p \<noteq> None")
  case True
  with assms(4) have True': "\<forall>p\<in>set (port_range s e). ScanPort rt' ps p \<noteq> None" by simp
  have o: "filter (reports_open rt ps) (port_range s e) = filter (reports_open rt' ps) (port_range s e)"
    using assms(4) by (intro filter_cong) (simp_all add: reports_open_def)
  have m: "map (\<lambda>p. the (ScanPort rt ps p)) (port_range s e) =
           map (\<lambda>p. the (ScanPort rt' ps p)) (port_range s e)"
    using assms(4) by (intro map_cong) simp_all
  show ?thesis
    by (simp add: Scan_returns[OF assms(1-3) True] Scan_returns[OF assms(1-3) True'] o m)
next
  case False
  then have h: "\<exists>p\<in>set (port_range s e). ScanPort rt ps p = None" by simp
  with assms(4) have h': "\<exists>p\<in>set (port_range s e). ScanPort rt' ps p = None" by auto
  show ?thesis by (simp add: Scan_hangs[OF assms(1-3) h] Scan_hangs[OF assms(1-3) h'])
qed




lemma sint_capacity:
  assumes "- (2^63) \<le> sint e - sint s + 1" and "sint e - sint s + 1 < 2^63"
  shows "sint (e - s + 1 :: go_int) = sint e - sint s + 1"
proof -
  have "(e - s + 1 :: go_int) = word_of_int (sint e - sint s + 1)" by simp
  then have "sint (e - s + 1) = signed_take_bit 63 (sint e - sint s + 1)"
    by (simp only: sint_sbintrunc') simp
  with assms show ?thesis by (simp add: signed_take_bit_int_eq_self)
qed

lemma Scan_panics:
  assumes "sint e + 1 < sint s" and "sint s - sint e - 1 \<le> 2^63"
  shows "Scan rt ps s e = Some (Inl (Panic ''makechan: size out of range''))"
proof -
  have "sint (e - s + 1) = sint e - sint s + 1"
    using assms by (intro sint_capacity) simp_all
  with assms(1) have "sint (e - s + 1) < 0" by simp
  then show ?thesis by (simp add: Scan_def make_chan_def)
qed

lemma make_chan_valid:
  assumes "1 \<le> sint s" "sint s \<le> sint e" "sint e \<le> 65535"
  shows "make_chan (e - s + 1) =
         Inr \<lparr>capacity = nat (sint e - sint s + 1), queue = [], closed = False\<rparr>"
proof -
  have "sint (e - s + 1) = sint e - sint s + 1"
    using assms by (intro sint_capacity) simp_all
  with assms show ?thesis by (simp add: make_chan_def maxAlloc_def hchanSize_def)
qed

lemma scan_ports_no_fault:
  "8 * int (length ports) \<le> maxAlloc - hchanSize \<Longrightarrow> scan_ports rt ps ports \<noteq> Some (Inl f)"
  using scan_ports_completes[of ports rt ps "Inl f"] by auto

lemma Scan_no_fault:
  assumes "1 \<le> sint s" "sint s \<le> sint e" "sint e \<le> 65535"
  shows "Scan rt ps s e \<noteq> Some (Inl f)"
  using scan_ports_no_fault[OF Scan_valid_range(2)[OF assms]]
  by (simp add: Scan_valid_range(1)[OF assms])

lemma ScanPopularPorts_no_fault: "ScanPopularPorts rt ps \<noteq> Some (Inl f)"
  using scan_ports_no_fault[OF getPopularPorts_fits, of rt ps f]
  by (simp add: ScanPopularPorts_scan_ports)

lemma main_no_fault: "main rt fl \<noteq> Some (Inl f)"
proof (cases "1 \<le> sint (flag_start fl) \<and> sint (flag_start fl) \<le> sint (flag_end fl) \<and>
              sint (flag_end fl) \<le> 65535")
  case True
  then have v: "1 \<le> sint (flag_start fl)" "sint (flag_start fl) \<le> sint (flag_end fl)"
    "sint (flag_end fl) \<le> 65535" by simp_all
  show ?thesis
    using Scan_no_fault[OF v, of rt _ f] ScanPopularPorts_no_fault[of rt _ f]
    by (auto simp add: main_def Let_def split: option.splits sum.splits)
next
  case False
  then show ?thesis by (auto simp add: main_def Let_def)
qed

section \<open>Every completion order and every dial outcome is covered\<close>

lemma finish_order_covers:
  assumes "distinct xs" and "set xs = {0..<n}"
  shows "finish_order n xs = xs"
proof -
  have "filter (\<lambda>i. i < n) xs = xs" using assms(2) by (auto intro: filter_True)
  moreover have "remdups xs = xs" using assms(1) by (rule distinct_remdups_id)
  moreover have "filter (\<lambda>i. i \<notin> set xs) [0..<n] = []" using assms(2) by (auto simp add: filter_empty_conv)
  ultimately show ?thesis by (simp add: finish_order_def)
qed

lemma digit_inj: "i < 10 \<Longrightarrow> j < 10 \<Longrightarrow> ''0123456789'' ! i = ''0123456789'' ! j \<Longrightarrow> i = j"
proof -
  assume "i < 10" "j < 10" "''0123456789'' ! i = ''0123456789'' ! j"
  moreover have "distinct ''0123456789''" by simp
  ultimately show "i = j" by (simp add: nth_eq_iff_index_eq)
qed

lemma digit_not_minus: "i < 10 \<Longrightarrow> ''0123456789'' ! i \<noteq> CHR ''-''"
proof -
  assume "i < 10"
  then have "''0123456789'' ! i \<in> set ''0123456789''" by (intro nth_mem) simp
  then show ?thesis by auto
qed

lemma digits_nonempty: "digits n \<noteq> []"
  by (subst digits.simps) simp

lemma digits_nonempty': "[] \<noteq> digits n"
  using digits_nonempty[of n] by (rule not_sym)

lemma hd_digits: "hd (digits n) \<noteq> CHR ''-''"
proof (induction n rule: digits.induct)
  case (1 n)
  show ?case
  proof (cases "n < 10")
    case True
    then show ?thesis by (subst digits.simps) (simp add: digit_not_minus)
  next
    case False
    with 1 show ?thesis by (subst digits.simps) (simp add: digits_nonempty)
  qed
qed

lemma digits_inj: "digits n = digits m \<Longrightarrow> n = m"
proof (induction n arbitrary: m rule: digits.induct)
  case (1 n)
  show ?case
  proof (cases "n < 10")
    case n: True
    show ?thesis
    proof (cases "m < 10")
      case True
      with n 1(2) show ?thesis
        by (simp add: digits.simps[of n] digits.simps[of m] digit_inj)
    next
      case False
      with n 1(2) show ?thesis
        by (simp add: digits.simps[of n] digits.simps[of m] digits_nonempty digits_nonempty')
    qed
  next
    case n: False
    show ?thesis
    proof (cases "m < 10")
      case True
      with n 1(2) show ?thesis
        by (simp add: digits.simps[of n] digits.simps[of m] digits_nonempty digits_nonempty')
    next
      case False
      with n 1(2) have "digits (n div 10) = digits (m div 10)"
        and "''0123456789'' ! (n mod 10) = ''0123456789'' ! (m mod 10)"
        by (simp_all add: digits.simps[of n] digits.simps[of m])
      with 1(1)[OF n] have "n div 10 = m div 10" "n mod 10 = m mod 10"
        by (simp_all add: digit_inj)
      then show ?thesis by (metis div_mult_mod_eq)
    qed
  qed
qed

lemma fmt_d_inj: "fmt_d i = fmt_d j \<Longrightarrow> i = j"
proof -
  assume eq: "fmt_d i = fmt_d j"
  have neg: "digits a \<noteq> CHR ''-'' # digits b" for a b
    using hd_digits[of a] by (cases "digits a") auto
  show ?thesis
  proof (cases "i < 0")
    case i: True
    show ?thesis
    proof (cases "j < 0")
      case True
      with i eq have "digits (nat (- i)) = digits (nat (- j))" by (simp add: fmt_d_def)
      then have "nat (- i) = nat (- j)" by (rule digits_inj)
      with i True show ?thesis by simp
    next
      case False
      with i eq neg[of "nat j" "nat (- i)"] show ?thesis by (simp add: fmt_d_def)
    qed
  next
    case i: False
    show ?thesis
    proof (cases "j < 0")
      case True
      with i eq neg[of "nat i" "nat (- j)"] show ?thesis by (simp add: fmt_d_def)
    next
      case False
      with i eq have "digits (nat i) = digits (nat j)" by (simp add: fmt_d_def)
      then have "nat i = nat j" by (rule digits_inj)
      with i False show ?thesis by simp
    qed
  qed
qed

lemma address_inj: "address ps p = address ps q \<Longrightarrow> p = q"
proof -
  assume "address ps p = address ps q"
  then have "fmt_d (sint p) = fmt_d (sint q)" by (simp add: address_def)
  then have "sint p = sint q" by (rule fmt_d_inj)
  then show "p = q" by (rule signed_word_eqI)
qed

lemma every_outcome_realised:
  "\<exists>rt. completion rt = sched \<and> (\<forall>p k. answer rt ps p k = g p k)"
proof -
  define rt :: runtime where
    "rt = \<lparr>DialTimeout = (\<lambda>a t k. g (THE p. address ps p = a) k), completion = sched,
           elapsed = []\<rparr>"
  have "(THE q. address ps q = address ps p) = p" for p
    by (rule the_equality) (auto dest: address_inj)
  then have "answer rt ps p k = g p k" for p k
    by (simp add: answer_def rt_def)
  moreover have "completion rt = sched" by (simp add: rt_def)
  ultimately show ?thesis by blast
qed

section \<open>Completed scans of both entry points\<close>

lemma Scan_exact:
  assumes "1 \<le> sint s" "sint s \<le> sint e" "sint e \<le> 65535"
      and "\<forall>p\<in>set (port_range s e). ScanPort rt ps p \<noteq> None"
  shows "\<exists>sc. Scan rt ps s e = Some (Inr sc) \<and> started sc = port_range s e \<and>
              distinct (started sc) \<and>
              map Some (probes sc) = map (ScanPort rt ps) (started sc) \<and>
              chan_cap sc = length (started sc) \<and>
              results sc = filter (reports_open rt ps) (port_range s e) \<and>
              length (results sc) = card {p \<in> set (port_range s e). reports_open rt ps p}"
  using probes_observed[OF assms(4)] count_open[OF distinct_port_range, of rt ps s e]
  by (simp add: Scan_returns[OF assms] distinct_port_range)

lemma ScanPopularPorts_exact:
  assumes "\<forall>p\<in>set getPopularPorts. ScanPort rt ps p \<noteq> None"
  shows "\<exists>sc. ScanPopularPorts rt ps = Some (Inr sc) \<and> started sc = getPopularPorts \<and>
              distinct (started sc) \<and>
              map Some (probes sc) = map (ScanPort rt ps) (started sc) \<and>
              chan_cap sc = length (started sc) \<and>
              results sc = sort_Ints (filter (reports_open rt ps) getPopularPorts) \<and>
              mset (results sc) = mset (filter (reports_open rt ps) getPopularPorts) \<and>
              length (results sc) = card {p \<in> set getPopularPorts. reports_open rt ps p}"
  using probes_observed[OF assms] count_open[OF distinct_getPopularPorts, of rt ps]
  by (simp add: ScanPopularPorts_scan_ports scan_ports_returns[OF assms getPopularPorts_fits]
        distinct_getPopularPorts mset_sort_Ints length_sort_Ints)

lemma Scan_completed:
  assumes "1 \<le> sint s" "sint s \<le> sint e" "sint e \<le> 65535"
      and "Scan rt ps s e = Some out"
  shows "\<forall>p\<in>set (port_range s e). ScanPort rt ps p \<noteq> None"
proof -
  from assms(4) have "scan_ports rt ps (port_range s e) = Some out"
    by (simp add: Scan_valid_range(1)[OF assms(1-3)])
  from scan_ports_completes[OF Scan_valid_range(2)[OF assms(1-3)] this]
  show ?thesis by simp
qed

lemma ScanPopularPorts_completed:
  assumes "ScanPopularPorts rt ps = Some out"
  shows "\<forall>p\<in>set getPopularPorts. ScanPort rt ps p \<noteq> None"
proof -
  from assms have "scan_ports rt ps getPopularPorts = Some out"
    by (simp add: ScanPopularPorts_scan_ports)
  from scan_ports_completes[OF getPopularPorts_fits this] show ?thesis by simp
qed

section \<open>Scanners that never dial, on any bounds\<close>





section \<open>The claims\<close>

text \<open>
  C1. For a valid range \<open>1 \<le> s \<le> e \<le> 65535\<close> and whatever the dials answer and
  the scheduler does, every sequence \<open>Scan\<close> returns lies within \<open>[s, e]\<close>, is strictly
  ascending and has no duplicates; and \<open>Scan\<close> does return one unless the retry count
  is the largest \<open>int\<close>.
\<close>

theorem Scan_result_ascending_in_range:
  assumes "1 \<le> sint s" and "sint s \<le> sint e" and "sint e \<le> 65535"
  shows "(retryCount ps \<noteq> MaxInt \<longrightarrow> (\<exists>sc. Scan rt ps s e = Some (Inr sc))) \<and>
         (\<forall>sc. Scan rt ps s e = Some (Inr sc) \<longrightarrow>
            (\<forall>p\<in>set (results sc). sint s \<le> sint p \<and> sint p \<le> sint e) \<and>
            sorted_wrt (\<lambda>a b. sint a < sint b) (results sc) \<and>
            distinct (results sc))"
proof (cases "\<forall>p\<in>set (port_range s e). ScanPort rt ps p \<noteq> None")
  case True
  have "\<forall>p\<in>set (filter (reports_open rt ps) (port_range s e)). sint s \<le> sint p \<and> sint p \<le> sint e"
    by (simp add: set_port_range)
  moreover have "sorted_wrt (\<lambda>a b. sint a < sint b) (filter (reports_open rt ps) (port_range s e))"
    using ascending_port_range by (rule sorted_wrt_filter)
  moreover have "distinct (filter (reports_open rt ps) (port_range s e))"
    using distinct_port_range by (rule distinct_filter)
  ultimately show ?thesis
    by (simp add: Scan_returns[OF assms True])
next
  case False
  then have hang: "\<exists>p\<in>set (port_range s e). ScanPort rt ps p = None" by simp
  then have "retryCount ps = MaxInt" using ScanPort_returns' by blast
  then show ?thesis by (simp add: Scan_hangs[OF assms hang])
qed

theorem Scan_result_ascending_in_range_witness:
  "\<exists>sc. Scan demo_rt demo_ps 20 26 = Some (Inr sc) \<and>
        sorted_wrt (\<lambda>a b. sint a < sint b) (results sc) \<and> distinct (results sc)"
  using Scan_result_ascending_in_range[of 20 26 demo_ps demo_rt]
  by (auto simp add: demo_ps_def NewPortScanner_def MaxInt_def)

text \<open>
  C2. On a valid range and on the popular ports alike, a scan call returns as soon as
  every probe returns, which every probe does unless the retry count is the largest
  \<open>int\<close>; and a call that completes has returned normally. What it returns then: one
  probe was started for each port of the set (the set has no duplicates), every probe
  has returned and its outcome is recorded, the channel was made with a capacity equal
  to the size of the set (so no send blocked), and the result is exactly the ports
  whose probe reported open, each once: as many as there are open ports.
\<close>

theorem scan_observes_every_probe_once:
  "(1 \<le> sint s \<and> sint s \<le> sint e \<and> sint e \<le> 65535 \<longrightarrow>
      (retryCount ps \<noteq> MaxInt \<or> (\<forall>p\<in>set (port_range s e). ScanPort rt ps p \<noteq> None) \<longrightarrow>
         (\<exists>sc. Scan rt ps s e = Some (Inr sc) \<and> started sc = port_range s e \<and>
               distinct (started sc) \<and>
               map Some (probes sc) = map (ScanPort rt ps) (started sc) \<and>
               chan_cap sc = length (started sc) \<and>
               results sc = filter (reports_open rt ps) (port_range s e) \<and>
               length (results sc) = card {p \<in> set (port_range s e). reports_open rt ps p})) \<and>
      (Scan rt ps s e = Some out \<longrightarrow>
         (\<exists>sc. out = Inr sc \<and> started sc = port_range s e \<and> distinct (started sc) \<and>
               map Some (probes sc) = map (ScanPort rt ps) (started sc) \<and>
               chan_cap sc = length (started sc) \<and>
               results sc = filter (reports_open rt ps) (port_range s e) \<and>
               length (results sc) = card {p \<in> set (port_range s e). reports_open rt ps p}))) \<and>
   (retryCount ps \<noteq> MaxInt \<or> (\<forall>p\<in>set getPopularPorts. ScanPort rt ps p \<noteq> None) \<longrightarrow>
      (\<exists>sc. ScanPopularPorts rt ps = Some (Inr sc) \<and> started sc = getPopularPorts \<and>
            distinct (started sc) \<and>
            map Some (probes sc) = map (ScanPort rt ps) (started sc) \<and>
            chan_cap sc = length (started sc) \<and>
            results sc = sort_Ints (filter (reports_open rt ps) getPopularPorts) \<and>
            mset (results sc) = mset (filter (reports_open rt ps) getPopularPorts) \<and>
            length (results sc) = card {p \<in> set getPopularPorts. reports_open rt ps p})) \<and>
   (ScanPopularPorts rt ps = Some out' \<longrightarrow>
      (\<exists>sc. out' = Inr sc \<and> started sc = getPopularPorts \<and> distinct (started sc) \<and>
            map Some (probes sc) = map (ScanPort rt ps) (started sc) \<and>
            chan_cap sc = length (started sc) \<and>
            results sc = sort_Ints (filter (reports_open rt ps) getPopularPorts) \<and>
            mset (results sc) = mset (filter (reports_open rt ps) getPopularPorts) \<and>
            length (results sc) = card {p \<in> set getPopularPorts. reports_open rt ps p}))"
proof (intro conjI impI)
  assume v: "1 \<le> sint s \<and> sint s \<le> sint e \<and> sint e \<le> 65535"
    and "retryCount ps \<noteq> MaxInt \<or> (\<forall>p\<in>set (port_range s e). ScanPort rt ps p \<noteq> None)"
  then have all: "\<forall>p\<in>set (port_range s e). ScanPort rt ps p \<noteq> None"
    using ScanPort_returns'[of ps rt] by blast
  from v have "1 \<le> sint s" "sint s \<le> sint e" "sint e \<le> 65535" by simp_all
  then show "\<exists>sc. Scan rt ps s e = Some (Inr sc) \<and> started sc = port_range s e \<and>
               distinct (started sc) \<and>
               map Some (probes sc) = map (ScanPort rt ps) (started sc) \<and>
               chan_cap sc = length (started sc) \<and>
               results sc = filter (reports_open rt ps) (port_range s e) \<and>
               length (results sc) = card {p \<in> set (port_range s e). reports_open rt ps p}"
    using all by (rule Scan_exact)
next
  assume v: "1 \<le> sint s \<and> sint s \<le> sint e \<and> sint e \<le> 65535"
    and out: "Scan rt ps s e = Some out"
  from v have v': "1 \<le> sint s" "sint s \<le> sint e" "sint e \<le> 65535" by simp_all
  from Scan_exact[OF v' Scan_completed[OF v' out]] out
  show "\<exists>sc. out = Inr sc \<and> started sc = port_range s e \<and> distinct (started sc) \<and>
               map Some (probes sc) = map (ScanPort rt ps) (started sc) \<and>
               chan_cap sc = length (started sc) \<and>
               results sc = filter (reports_open rt ps) (port_range s e) \<and>
               length (results sc) = card {p \<in> set (port_range s e). reports_open rt ps p}"
    by auto
next
  assume "retryCount ps \<noteq> MaxInt \<or> (\<forall>p\<in>set getPopularPorts. ScanPort rt ps p \<noteq> None)"
  then have "\<forall>p\<in>set getPopularPorts. ScanPort rt ps p \<noteq> None"
    using ScanPort_returns'[of ps rt] by blast
  then show "\<exists>sc. ScanPopularPorts rt ps = Some (Inr sc) \<and> started sc = getPopularPorts \<and>
            distinct (started sc) \<and>
            map Some (probes sc) = map (ScanPort rt ps) (started sc) \<and>
            chan_cap sc = length (started sc) \<and>
            results sc = sort_Ints (filter (reports_open rt ps) getPopularPorts) \<and>
            mset (results sc) = mset (filter (reports_open rt ps) getPopularPorts) \<and>
            length (results sc) = card {p \<in> set getPopularPorts. reports_open rt ps p}"
    by (rule ScanPopularPorts_exact)
next
  assume out: "ScanPopularPorts rt ps = Some out'"
  from ScanPopularPorts_exact[OF ScanPopularPorts_completed[OF out]] out
  show "\<exists>sc. out' = Inr sc \<and> started sc = getPopularPorts \<and> distinct (started sc) \<and>
            map Some (probes sc) = map (ScanPort rt ps) (started sc) \<and>
            chan_cap sc = length (started sc) \<and>
            results sc = sort_Ints (filter (reports_open rt ps) getPopularPorts) \<and>
            mset (results sc) = mset (filter (reports_open rt ps) getPopularPorts) \<and>
            length (results sc) = card {p \<in> set getPopularPorts. reports_open rt ps p}"
    by auto
qed

theorem scan_observes_every_probe_once_witness:
  "(\<exists>sc. Scan demo_rt demo_ps 20 26 = Some (Inr sc) \<and> results sc = [22, 25] \<and>
         chan_cap sc = 7 \<and> length (probes sc) = 7) \<and>
   (\<exists>sc. ScanPopularPorts demo_rt' demo_ps = Some (Inr sc) \<and> results sc = [22, 80] \<and>
         chan_cap sc = 33 \<and> length (probes sc) = 33)"
proof -
  have r: "retryCount demo_ps \<noteq> MaxInt"
    by (simp add: demo_ps_def NewPortScanner_def MaxInt_def)
  have v: "1 \<le> sint (20 :: go_int) \<and> sint (20 :: go_int) \<le> sint (26 :: go_int) \<and>
           sint (26 :: go_int) \<le> 65535" by simp
  have 3: "sort_Ints [80, 22] = [22, 80]" by (simp add: sort_Ints_def)
  have 4: "length (port_range 20 26) = 7" by (simp add: length_port_range)
  from scan_observes_every_probe_once[of 20 26 demo_ps demo_rt, THEN conjunct1, THEN mp, OF v,
         THEN conjunct1] r
  obtain sc where a: "Scan demo_rt demo_ps 20 26 = Some (Inr sc)" "results sc = [22, 25]"
      "chan_cap sc = 7"
      "map Some (probes sc) = map (ScanPort demo_rt demo_ps) (started sc)" "length (started sc) = 7"
    by (auto simp add: demo_range 4)
  from scan_observes_every_probe_once[of 20 26 demo_ps demo_rt', THEN conjunct2, THEN conjunct1] r
  obtain sc' where b: "ScanPopularPorts demo_rt' demo_ps = Some (Inr sc')" "results sc' = [22, 80]"
      "chan_cap sc' = 33"
      "map Some (probes sc') = map (ScanPort demo_rt' demo_ps) (started sc')"
      "length (started sc') = 33"
    by (auto simp add: demo_popular 3 length_getPopularPorts)
  from a(4,5) have "length (probes sc) = 7" by (metis length_map)
  moreover from b(4,5) have "length (probes sc') = 33" by (metis length_map)
  ultimately show ?thesis using a b by blast
qed

text \<open>
  C3 (as amended). For every retry count \<open>r\<close> with \<open>0 \<le> r\<close>: when the \<open>M\<close>-th attempt is
  the first to connect and \<open>M \<le> r + 1\<close>, the probe reports the port open, after exactly
  \<open>M\<close> (so at most \<open>r + 1\<close>) connection attempts. And for every such \<open>r\<close> other than the
  largest \<open>int\<close>: a probe returns after at most \<open>r + 1\<close> connection attempts, and when none
  of the first \<open>r + 1\<close> attempts connects it reports the port closed, after exactly
  \<open>r + 1\<close> attempts.
\<close>

theorem ScanPort_retry_budget:
  assumes "0 \<le> sint (retryCount ps)"
  shows "(\<forall>M. 1 \<le> M \<and> M \<le> nat (sint (retryCount ps)) + 1 \<and>
              (\<forall>j<M - 1. \<not> connected (answer rt ps port j)) \<and>
              connected (answer rt ps port (M - 1)) \<longrightarrow>
              (\<exists>pr. ScanPort rt ps port = Some pr \<and> sent pr = Some port \<and>
                    dials (trace pr) = M)) \<and>
         (retryCount ps \<noteq> MaxInt \<longrightarrow>
            (\<exists>pr. ScanPort rt ps port = Some pr \<and>
                  dials (trace pr) \<le> nat (sint (retryCount ps)) + 1 \<and>
                  ((\<forall>j<nat (sint (retryCount ps)) + 1. \<not> connected (answer rt ps port j))
                     \<longrightarrow> sent pr = None \<and> dials (trace pr) = nat (sint (retryCount ps)) + 1)))"
proof (intro conjI allI impI)
  fix M
  assume h: "1 \<le> M \<and> M \<le> nat (sint (retryCount ps)) + 1 \<and>
              (\<forall>j<M - 1. \<not> connected (answer rt ps port j)) \<and>
              connected (answer rt ps port (M - 1))"
  then have "1 \<le> M" and "M \<le> nat (sint (retryCount ps)) + 1" by simp_all
  then have "M - 1 < nat (sint (retryCount ps)) + 1" by arith
  then have le: "int (M - 1) \<le> sint (retryCount ps)"
    by (simp add: retry_budget_nat[OF assms])
  from h have miss: "\<forall>j<M - 1. \<not> connected (answer rt ps port j)"
    and hit: "connected (answer rt ps port (M - 1))" by simp_all
  from ScanPort_first_hit[OF le miss hit]
  obtain pr where pr: "ScanPort rt ps port = Some pr" "sent pr = Some port"
      "addresses (trace pr) = replicate (Suc (M - 1)) (address ps port)" by blast
  from pr(3) have "dials (trace pr) = Suc (M - 1)" by (rule dials_replicate)
  with h have "dials (trace pr) = M" by simp
  with pr(1,2) show "\<exists>pr. ScanPort rt ps port = Some pr \<and> sent pr = Some port \<and>
                    dials (trace pr) = M" by blast
next
  assume r: "retryCount ps \<noteq> MaxInt"
  from ScanPort_budget[OF assms r, of rt port]
  show "\<exists>pr. ScanPort rt ps port = Some pr \<and>
                  dials (trace pr) \<le> nat (sint (retryCount ps)) + 1 \<and>
                  ((\<forall>j<nat (sint (retryCount ps)) + 1. \<not> connected (answer rt ps port j))
                     \<longrightarrow> sent pr = None \<and> dials (trace pr) = nat (sint (retryCount ps)) + 1)"
    by blast
qed

theorem ScanPort_retry_budget_witness:
  "(\<exists>pr. ScanPort demo_rt patient_ps 22 = Some pr \<and> sent pr = Some 22 \<and> dials (trace pr) = 2) \<and>
   (\<exists>pr. ScanPort demo_rt demo_ps 23 = Some pr \<and> sent pr = None \<and> dials (trace pr) = 3)"
proof -
  have p: "0 \<le> sint (retryCount patient_ps)"
    by (simp add: patient_ps_def NewPortScanner_def MaxInt_def)
  have a: "1 \<le> (2 :: nat) \<and> 2 \<le> nat (sint (retryCount patient_ps)) + 1 \<and>
           (\<forall>j<2 - 1. \<not> connected (answer demo_rt patient_ps 22 j)) \<and>
           connected (answer demo_rt patient_ps 22 (2 - 1))"
    by (simp add: run_simps patient_ps_def MaxInt_def demo_rt_def)
  from ScanPort_retry_budget[OF p, of demo_rt 22, THEN conjunct1, rule_format, OF a]
  have 1: "\<exists>pr. ScanPort demo_rt patient_ps 22 = Some pr \<and> sent pr = Some 22 \<and>
                dials (trace pr) = 2" .
  have r: "0 \<le> sint (retryCount demo_ps)" "retryCount demo_ps \<noteq> MaxInt"
       "nat (sint (retryCount demo_ps)) + 1 = 3"
    by (simp_all add: demo_ps_def NewPortScanner_def MaxInt_def)
  have b: "\<forall>j<3. \<not> connected (answer demo_rt demo_ps 23 j)"
    by (simp add: run_simps demo_ps_def demo_rt_def)
  from ScanPort_retry_budget[OF r(1), of demo_rt 23, THEN conjunct2, THEN mp, OF r(2)]
  obtain pr' where p': "ScanPort demo_rt demo_ps 23 = Some pr'"
    and h': "(\<forall>j<nat (sint (retryCount demo_ps)) + 1. \<not> connected (answer demo_rt demo_ps 23 j))
                \<longrightarrow> sent pr' = None \<and> dials (trace pr') = nat (sint (retryCount demo_ps)) + 1"
    by blast
  from h' b r(3) have "sent pr' = None \<and> dials (trace pr') = 3" by simp
  with p' have 2: "\<exists>pr. ScanPort demo_rt demo_ps 23 = Some pr \<and> sent pr = None \<and>
                       dials (trace pr) = 3"
    by simp
  from 1 2 show ?thesis by (rule conjI)
qed

theorem ScanPort_retry_budget_counterexample:
  "0 \<le> sint MaxInt \<and> ScanPort refusing (NewPortScanner ''h'' 200000000 MaxInt) 80 = None"
proof -
  have "ScanPort refusing (NewPortScanner ''h'' 200000000 MaxInt) 80 = None"
    by (rule ScanPort_diverges) (simp_all add: NewPortScanner_def answer_def refusing_def connected_def)
  then show ?thesis by (simp add: MaxInt_def)
qed

text \<open>
  C4. When every dial for a port fails, whatever the kinds of the failures, the probe
  behaves the same: two environments that both fail every dial give the same probe,
  event for event; if it returns (it does unless the retry count is the largest \<open>int\<close>)
  it has sent nothing, as a probe configured for a single attempt has after its one
  failed dial; the probe carries no error value; and the port is absent from the result
  of a scan of a valid range and of the popular ports.
\<close>

theorem dial_failures_collapse:
  assumes "\<forall>k. snd (answer rt ps port k) \<noteq> None"
      and "\<forall>k. snd (answer rt' ps port k) \<noteq> None"
  shows "ScanPort rt ps port = ScanPort rt' ps port \<and>
         (retryCount ps \<noteq> MaxInt \<longrightarrow> (\<exists>pr. ScanPort rt ps port = Some pr)) \<and>
         (\<forall>pr. ScanPort rt ps port = Some pr \<longrightarrow>
            sent pr = None \<and>
            (\<exists>pr0. ScanPort rt (ps\<lparr>retryCount := 0\<rparr>) port = Some pr0 \<and>
                   sent pr0 = sent pr \<and> dials (trace pr0) = 1)) \<and>
         (\<forall>s e sc. 1 \<le> sint s \<and> sint s \<le> sint e \<and> sint e \<le> 65535 \<and>
                   Scan rt ps s e = Some (Inr sc) \<longrightarrow> port \<notin> set (results sc)) \<and>
         (\<forall>sc. ScanPopularPorts rt ps = Some (Inr sc) \<longrightarrow> port \<notin> set (results sc))"
proof -
  have f: "\<forall>k. \<not> connected (answer rt ps port k)"
    using assms(1) by (simp add: failed_not_connected)
  have f': "\<forall>k. \<not> connected (answer rt' ps port k)"
    using assms(2) by (simp add: failed_not_connected)
  have 1: "ScanPort rt ps port = ScanPort rt' ps port"
    by (rule ScanPort_agree) (simp add: f f')
  have 2: "retryCount ps \<noteq> MaxInt \<longrightarrow> (\<exists>pr. ScanPort rt ps port = Some pr)"
    using ScanPort_returns'[of ps rt port] by auto
  have 3: "\<forall>pr. ScanPort rt ps port = Some pr \<longrightarrow>
            sent pr = None \<and>
            (\<exists>pr0. ScanPort rt (ps\<lparr>retryCount := 0\<rparr>) port = Some pr0 \<and>
                   sent pr0 = sent pr \<and> dials (trace pr0) = 1)"
    using ScanPort_all_fail[OF f] ScanPort_single_attempt[OF f] by auto
  have closed: "\<not> reports_open rt ps port" using f by (rule ScanPort_all_fail_closed)
  have 4: "\<forall>s e sc. 1 \<le> sint s \<and> sint s \<le> sint e \<and> sint e \<le> 65535 \<and>
                   Scan rt ps s e = Some (Inr sc) \<longrightarrow> port \<notin> set (results sc)"
    using closed by (auto simp add: Scan_results_open)
  have 5: "\<forall>sc. ScanPopularPorts rt ps = Some (Inr sc) \<longrightarrow> port \<notin> set (results sc)"
    using closed by (auto simp add: ScanPopularPorts_results_open)
  from 1 2 3 4 5 show ?thesis by (intro conjI)
qed

theorem dial_failures_collapse_witness:
  "ScanPort refusing demo_ps 80 = ScanPort unreachable demo_ps 80 \<and>
   (\<exists>pr. ScanPort refusing demo_ps 80 = Some pr \<and> sent pr = None)"
proof -
  have a: "\<forall>k. snd (answer refusing demo_ps 80 k) \<noteq> None"
    by (simp add: answer_def refusing_def)
  have b: "\<forall>k. snd (answer unreachable demo_ps 80 k) \<noteq> None"
    by (simp add: answer_def unreachable_def)
  have c: "retryCount demo_ps \<noteq> MaxInt"
    by (simp add: demo_ps_def NewPortScanner_def MaxInt_def)
  note collapse = dial_failures_collapse[OF a b]
  from collapse have e: "ScanPort refusing demo_ps 80 = ScanPort unreachable demo_ps 80"
    by (rule conjunct1)
  from collapse c obtain pr where p: "ScanPort refusing demo_ps 80 = Some pr" by blast
  from collapse p have "sent pr = None" by blast
  with p have "\<exists>pr. ScanPort refusing demo_ps 80 = Some pr \<and> sent pr = None" by blast
  with e show ?thesis by (rule conjI)
qed

text \<open>
  C5. The outcome of the one-byte read has no effect: with any other read outcomes in
  place of the environment's, a probe is the same probe and a scan the same scan; and
  once a dial within the retry budget connects after failed ones, the probe reports the
  port open whatever the read yields.
\<close>

theorem read_outcome_ignored:
  "ScanPort (with_reads f rt) ps port = ScanPort rt ps port \<and>
   Scan (with_reads f rt) ps s e = Scan rt ps s e \<and>
   (int m \<le> sint (retryCount ps) \<and> (\<forall>j<m. \<not> connected (answer rt ps port j)) \<and>
    connected (answer rt ps port m) \<longrightarrow>
      (\<exists>pr. ScanPort (with_reads f rt) ps port = Some pr \<and> sent pr = Some port \<and>
            dials (trace pr) = m + 1))"
proof (intro conjI impI)
  show "ScanPort (with_reads f rt) ps port = ScanPort rt ps port" by (rule ScanPort_with_reads)
  show "Scan (with_reads f rt) ps s e = Scan rt ps s e" by (rule Scan_with_reads)
  assume "int m \<le> sint (retryCount ps) \<and> (\<forall>j<m. \<not> connected (answer rt ps port j)) \<and>
    connected (answer rt ps port m)"
  then have "\<exists>pr. ScanPort rt ps port = Some pr \<and> sent pr = Some port \<and>
              addresses (trace pr) = replicate (Suc m) (address ps port)"
    by (intro ScanPort_first_hit) simp_all
  then show "\<exists>pr. ScanPort (with_reads f rt) ps port = Some pr \<and> sent pr = Some port \<and>
            dials (trace pr) = m + 1"
    by (auto simp add: ScanPort_with_reads dials_def)
qed

theorem read_outcome_ignored_witness:
  "\<exists>pr. ScanPort (with_reads (\<lambda>a k. ReadFailed) demo_rt) demo_ps 22 = Some pr \<and>
        sent pr = Some 22 \<and> dials (trace pr) = 2"
proof -
  have h: "int 1 \<le> sint (retryCount demo_ps) \<and>
        (\<forall>j<1. \<not> connected (answer demo_rt demo_ps 22 j)) \<and>
        connected (answer demo_rt demo_ps 22 1)"
    by (simp add: run_simps demo_ps_def demo_rt_def)
  from read_outcome_ignored[of "\<lambda>a k. ReadFailed" demo_rt demo_ps 22 0 0 1,
        THEN conjunct2, THEN conjunct2, THEN mp, OF h]
  obtain pr where "ScanPort (with_reads (\<lambda>a k. ReadFailed) demo_rt) demo_ps 22 = Some pr"
    "sent pr = Some 22" "dials (trace pr) = 1 + 1" by blast
  then show ?thesis by simp
qed

text \<open>
  C6. \<open>Scan\<close> on a valid range is the generic scanner \<open>scan_ports\<close> applied to the ports of
  the range, and \<open>ScanPopularPorts\<close> is the same generic scanner applied to the curated
  list: the two differ in the port set only. A popular-ports scan that returns has
  started its probes for exactly the ports of the list, in list order, and every
  address any of its probes dialled is the address of a port of the list.
\<close>

theorem entry_points_share_scanner:
  "(1 \<le> sint s \<and> sint s \<le> sint e \<and> sint e \<le> 65535 \<longrightarrow>
      Scan rt ps s e = scan_ports rt ps (port_range s e)) \<and>
   ScanPopularPorts rt ps = scan_ports rt ps getPopularPorts \<and>
   (\<forall>sc. ScanPopularPorts rt ps = Some (Inr sc) \<longrightarrow>
      started sc = getPopularPorts \<and>
      (\<forall>pr\<in>set (probes sc). set (addresses (trace pr)) \<subseteq> address ps ` set getPopularPorts))"
proof (intro conjI impI allI)
  assume "1 \<le> sint s \<and> sint s \<le> sint e \<and> sint e \<le> 65535"
  then show "Scan rt ps s e = scan_ports rt ps (port_range s e)"
    by (intro Scan_valid_range(1)) simp_all
next
  show "ScanPopularPorts rt ps = scan_ports rt ps getPopularPorts"
    by (rule ScanPopularPorts_scan_ports)
next
  fix sc assume "ScanPopularPorts rt ps = Some (Inr sc)"
  then have sp: "scan_ports rt ps getPopularPorts = Some (Inr sc)"
    by (simp add: ScanPopularPorts_scan_ports)
  note len = getPopularPorts_fits
  show "started sc = getPopularPorts" using len sp by (rule scan_ports_started)
  show "\<forall>pr\<in>set (probes sc). set (addresses (trace pr)) \<subseteq> address ps ` set getPopularPorts"
    using len sp by (rule scan_ports_addresses)
qed

theorem entry_points_share_scanner_witness:
  "Scan demo_rt demo_ps 20 26 = scan_ports demo_rt demo_ps (port_range 20 26) \<and>
   (\<exists>sc. ScanPopularPorts demo_rt' demo_ps = Some (Inr sc) \<and> started sc = getPopularPorts \<and>
         results sc = [22, 80])"
proof -
  from entry_points_share_scanner[of 20 26 demo_rt demo_ps]
  have 1: "Scan demo_rt demo_ps 20 26 = scan_ports demo_rt demo_ps (port_range 20 26)" by simp
  have 2: "ScanPopularPorts demo_rt' demo_ps =
           Some (Inr \<lparr>results = sort_Ints [80, 22], chan_cap = length getPopularPorts,
                      started = getPopularPorts,
                      probes = map (\<lambda>p. the (ScanPort demo_rt' demo_ps p)) getPopularPorts\<rparr>)"
    using scan_ports_returns[of getPopularPorts demo_rt' demo_ps]
    by (simp add: ScanPopularPorts_scan_ports demo_ps_returns demo_popular length_getPopularPorts
          maxAlloc_def hchanSize_def)
  from entry_points_share_scanner[of 20 26 demo_rt' demo_ps, THEN conjunct2, THEN conjunct2,
         rule_format, OF 2]
  have "started \<lparr>results = sort_Ints [80, 22], chan_cap = length getPopularPorts,
                      started = getPopularPorts,
                      probes = map (\<lambda>p. the (ScanPort demo_rt' demo_ps p)) getPopularPorts\<rparr> = getPopularPorts"
    by (rule conjunct1)
  with 2 have "\<exists>sc. ScanPopularPorts demo_rt' demo_ps = Some (Inr sc) \<and> started sc = getPopularPorts \<and>
         results sc = [22, 80]"
    by (simp add: sort_Ints_def)
  with 1 show ?thesis by (rule conjI)
qed

text \<open>
  C7. When the start or the end port is outside \<open>[1, 65535]\<close> or the start port exceeds
  the end port, \<open>main\<close> returns after printing one line and nothing else: the message
  about the port bounds, or else the message about the order of the ports (the credits
  line when \<open>-thx\<close> is given, which is handled first); it has called neither \<open>Scan\<close> nor
  \<open>ScanPopularPorts\<close>, so no probe was started and no connection attempted.
\<close>

theorem invalid_input_aborts:
  assumes "sint (flag_start fl) < 1 \<or> sint (flag_start fl) > 65535 \<or>
           sint (flag_end fl) < 1 \<or> sint (flag_end fl) > 65535 \<or>
           sint (flag_start fl) > sint (flag_end fl)"
  shows "\<exists>r. main rt fl = Some (Inr r) \<and>
             stdout r =
               [if flag_thx fl then ''You are welcome (https://github.com/ysfksr)''
                else if sint (flag_start fl) < 1 \<or> sint (flag_start fl) > 65535 \<or>
                        sint (flag_end fl) < 1 \<or> sint (flag_end fl) > 65535
                then ''Error: Port range must be between 1 and 65535''
                else ''Error: Start port must be less than or equal to end port''] \<and>
             scanned r = None \<and> dispatched r = [] \<and> connection_attempts r = 0"
  using assms by (auto simp add: main_def Let_def dispatched_def connection_attempts_def)

theorem invalid_input_aborts_witness:
  "(\<exists>r. main demo_rt demo_flags = Some (Inr r) \<and>
        stdout r = [''Error: Port range must be between 1 and 65535''] \<and>
        dispatched r = [] \<and> connection_attempts r = 0) \<and>
   (\<exists>r. main demo_rt (demo_flags\<lparr>flag_start := 443, flag_end := 80, flag_popular := True\<rparr>) =
          Some (Inr r) \<and>
        stdout r = [''Error: Start port must be less than or equal to end port''] \<and>
        dispatched r = [] \<and> connection_attempts r = 0)"
  using invalid_input_aborts[of demo_flags demo_rt]
        invalid_input_aborts[of "demo_flags\<lparr>flag_start := 443, flag_end := 80, flag_popular := True\<rparr>" demo_rt]
  by (auto simp add: demo_flags_def)



text \<open>
  C8. Against a static set \<open>S\<close> of listeners (a dial for a port of the range connects
  exactly when the port is in \<open>S\<close>), two runs of \<open>Scan\<close> with the same scanner over the
  same valid range are the same run, whatever the two completion orders and the kinds
  of failure: both never return, or both return the same record; and unless the retry
  count is the largest \<open>int\<close> both return, with the ports of \<open>S\<close> in the range in ascending
  order as result (none when the retry count is negative).
\<close>

theorem static_listeners_same_result:
  assumes "1 \<le> sint s" and "sint s \<le> sint e" and "sint e \<le> 65535"
      and "\<forall>p\<in>set (port_range s e). \<forall>k. connected (answer rt ps p k) = (p \<in> S)"
      and "\<forall>p\<in>set (port_range s e). \<forall>k. connected (answer rt' ps p k) = (p \<in> S)"
  shows "Scan rt ps s e = Scan rt' ps s e \<and>
         (retryCount ps \<noteq> MaxInt \<longrightarrow>
            (\<exists>sc. Scan rt ps s e = Some (Inr sc) \<and> Scan rt' ps s e = Some (Inr sc) \<and>
                  results sc = (if 0 \<le> sint (retryCount ps)
                                then filter (\<lambda>p. p \<in> S) (port_range s e) else [])))"
proof -
  have agree: "\<forall>p\<in>set (port_range s e). ScanPort rt ps p = ScanPort rt' ps p"
  proof
    fix p assume "p \<in> set (port_range s e)"
    with assms(4,5) have "\<forall>j. connected (answer rt ps p j) = connected (answer rt' ps p j)"
      by simp
    then show "ScanPort rt ps p = ScanPort rt' ps p" by (rule ScanPort_agree)
  qed
  have same: "Scan rt ps s e = Scan rt' ps s e"
    using assms(1-3) agree by (rule Scan_agree)
  have "\<exists>sc. Scan rt ps s e = Some (Inr sc) \<and>
             results sc = (if 0 \<le> sint (retryCount ps)
                           then filter (\<lambda>p. p \<in> S) (port_range s e) else [])"
    if r: "retryCount ps \<noteq> MaxInt"
  proof -
    have all: "\<forall>p\<in>set (port_range s e). ScanPort rt ps p \<noteq> None"
      using ScanPort_returns'[OF r] by simp
    have "filter (reports_open rt ps) (port_range s e) =
          filter (\<lambda>p. 0 \<le> sint (retryCount ps) \<and> p \<in> S) (port_range s e)"
      using assms(4) by (intro filter_cong) (simp_all add: ScanPort_static[OF r])
    then show ?thesis by (simp add: Scan_returns[OF assms(1-3) all])
  qed
  with same show ?thesis by auto
qed

theorem static_listeners_same_result_witness:
  "\<exists>sc. Scan demo_rt' demo_ps 20 26 = Some (Inr sc) \<and>
        Scan demo_rt'' demo_ps 20 26 = Some (Inr sc) \<and> results sc = [22]"
proof -
  have r: "port_range 20 26 = [20, 21, 22, 23, 24, 25, 26 :: go_int]"
    by (simp add: port_range_def upto_rec1)
  have a: "\<forall>p\<in>set (port_range 20 26). \<forall>k. connected (answer demo_rt' demo_ps p k) = (p \<in> {22, 80})"
    unfolding r by (simp add: run_simps demo_ps_def demo_rt'_def)
  have b: "\<forall>p\<in>set (port_range 20 26). \<forall>k. connected (answer demo_rt'' demo_ps p k) = (p \<in> {22, 80})"
    unfolding r by (simp add: run_simps demo_ps_def demo_rt''_def)
  have c: "retryCount demo_ps \<noteq> MaxInt" "0 \<le> sint (retryCount demo_ps)"
    by (simp_all add: demo_ps_def NewPortScanner_def MaxInt_def)
  have d: "filter (\<lambda>p. p \<in> {22, 80}) (port_range 20 26) = [22 :: go_int]"
    unfolding r by simp
  have "retryCount demo_ps \<noteq> MaxInt \<longrightarrow>
        (\<exists>sc. Scan demo_rt' demo_ps 20 26 = Some (Inr sc) \<and>
              Scan demo_rt'' demo_ps 20 26 = Some (Inr sc) \<and>
              results sc = (if 0 \<le> sint (retryCount demo_ps)
                            then filter (\<lambda>p. p \<in> {22, 80}) (port_range 20 26) else []))"
    by (rule static_listeners_same_result[of 20 26 demo_rt' demo_ps "{22, 80}" demo_rt'',
          OF _ _ _ a b, THEN conjunct2]) simp_all
  with c(1) obtain sc where sc: "Scan demo_rt' demo_ps 20 26 = Some (Inr sc)"
      "Scan demo_rt'' demo_ps 20 26 = Some (Inr sc)"
      "results sc = (if 0 \<le> sint (retryCount demo_ps)
                            then filter (\<lambda>p. p \<in> {22, 80}) (port_range 20 26) else [])"
    by blast
  from sc(3) c(2) d have "results sc = [22]" by simp
  with sc(1,2) show ?thesis by blast
qed




text \<open>
  C10 (as amended). \<open>Scan\<close> makes its channel with capacity \<open>endPort - startPort + 1\<close>,
  computed in wrapping \<open>int\<close> arithmetic. For a validated range the capacity is the
  positive number of ports, \<open>Scan\<close> neither panics nor deadlocks, and it returns unless
  the retry count is the largest \<open>int\<close>. A direct call with \<open>startPort > endPort + 1\<close>
  panics at the allocation whenever \<open>startPort - endPort - 1 \<le> 2^63\<close>, that is whenever
  the wrapped capacity is negative. \<open>main\<close> never ends in a panic or a deadlock.
\<close>

theorem Scan_channel_capacity:
  "(1 \<le> sint s \<and> sint s \<le> sint e \<and> sint e \<le> 65535 \<longrightarrow>
      make_chan (e - s + 1) =
        Inr \<lparr>capacity = nat (sint e - sint s + 1), queue = [], closed = False\<rparr> \<and>
      0 < nat (sint e - sint s + 1) \<and>
      (\<forall>f. Scan rt ps s e \<noteq> Some (Inl f)) \<and>
      (\<forall>sc. Scan rt ps s e = Some (Inr sc) \<longrightarrow> chan_cap sc = nat (sint e - sint s + 1)) \<and>
      (retryCount ps \<noteq> MaxInt \<longrightarrow> (\<exists>sc. Scan rt ps s e = Some (Inr sc)))) \<and>
   (sint e + 1 < sint s \<and> sint s - sint e - 1 \<le> 2^63 \<longrightarrow>
      Scan rt ps s e = Some (Inl (Panic ''makechan: size out of range''))) \<and>
   (\<forall>fl f. main rt fl \<noteq> Some (Inl f))"
proof (intro conjI impI allI)
  assume v: "1 \<le> sint s \<and> sint s \<le> sint e \<and> sint e \<le> 65535"
  then have v': "1 \<le> sint s" "sint s \<le> sint e" "sint e \<le> 65535" by simp_all
  show "make_chan (e - s + 1) =
        Inr \<lparr>capacity = nat (sint e - sint s + 1), queue = [], closed = False\<rparr>"
    using v' by (rule make_chan_valid)
  show "0 < nat (sint e - sint s + 1)" using v by simp
  show "Scan rt ps s e \<noteq> Some (Inl f)" for f using v' by (rule Scan_no_fault)
  show "chan_cap sc = nat (sint e - sint s + 1)" if "Scan rt ps s e = Some (Inr sc)" for sc
  proof -
    from that have "scan_ports rt ps (port_range s e) = Some (Inr sc)"
      by (simp add: Scan_valid_range(1)[OF v'])
    from scan_ports_completes[OF Scan_valid_range(2)[OF v'] this]
    show ?thesis by (auto simp add: length_port_range)
  qed
  show "\<exists>sc. Scan rt ps s e = Some (Inr sc)" if "retryCount ps \<noteq> MaxInt"
  proof -
    have "\<forall>p\<in>set (port_range s e). ScanPort rt ps p \<noteq> None"
      using ScanPort_returns'[OF that] by simp
    from Scan_returns[OF v' this] show ?thesis by simp
  qed
next
  assume "sint e + 1 < sint s \<and> sint s - sint e - 1 \<le> 2^63"
  then show "Scan rt ps s e = Some (Inl (Panic ''makechan: size out of range''))"
    by (intro Scan_panics) simp_all
next
  show "main rt fl \<noteq> Some (Inl f)" for fl f by (rule main_no_fault)
qed

theorem Scan_channel_capacity_witness:
  "(\<exists>sc. Scan demo_rt demo_ps 20 26 = Some (Inr sc) \<and> chan_cap sc = 7) \<and>
   Scan demo_rt demo_ps 20 18 = Some (Inl (Panic ''makechan: size out of range''))"
proof -
  note T = Scan_channel_capacity[of 20 26 demo_rt demo_ps]
  have c: "retryCount demo_ps \<noteq> MaxInt"
    by (simp add: demo_ps_def NewPortScanner_def MaxInt_def)
  from T c obtain sc where sc: "Scan demo_rt demo_ps 20 26 = Some (Inr sc)" by auto
  with T have "chan_cap sc = nat (sint (26 :: go_int) - sint (20 :: go_int) + 1)" by auto
  then have "chan_cap sc = 7" by simp
  with sc have 1: "\<exists>sc. Scan demo_rt demo_ps 20 26 = Some (Inr sc) \<and> chan_cap sc = 7" by blast
  from Scan_channel_capacity[of 20 18 demo_rt demo_ps]
  have 2: "Scan demo_rt demo_ps 20 18 = Some (Inl (Panic ''makechan: size out of range''))"
    by simp
  from 1 2 show ?thesis by (rule conjI)
qed

theorem Scan_channel_capacity_counterexample:
  "sint (- 9223372036854775808 :: go_int) + 1 < sint (9223372036854775807 :: go_int) \<and>
   Scan demo_rt demo_ps 9223372036854775807 (- 9223372036854775808) =
     Some (Inr \<lparr>results = [], chan_cap = 2, started = [], probes = []\<rparr>)"
proof -
  have s: "spawn 9223372036854775807 (- 9223372036854775808) [] = Some []"
    by (subst spawn.simps) simp
  have m: "make_chan ((- 9223372036854775808 :: go_int) - 9223372036854775807 + 1) =
           Inr \<lparr>capacity = 2, queue = [], closed = False\<rparr>"
    by (simp add: make_chan_def maxAlloc_def hchanSize_def)
  have w: "Wait demo_rt demo_ps [] \<lparr>capacity = 2, queue = [], closed = False\<rparr> =
           Some (Inr (\<lparr>capacity = 2, queue = [], closed = False\<rparr>, []))"
    by (simp add: Wait_def finish_order_def)
  show ?thesis
    unfolding Scan_def m s by (simp add: w close_def drain_def sort_Ints_def)
qed

end
